theory Spec2Isabelle
  imports Complex_Main "HOL-Library.Monad_Syntax"
begin

unbundle bit_operations_syntax

section \<open>Machine integers and number formatting\<close>

text \<open>
  Go's \<open>int64\<close> (and \<open>int\<close> on a 64-bit platform) is modelled as \<open>int\<close> with the
  two's-complement wrap-around written out: every addition, multiplication and left shift
  of the source goes through \<open>i64\<close>.
\<close>

definition i64 :: "int \<Rightarrow> int" where
  "i64 x = (x + 2 ^ 63) mod 2 ^ 64 - 2 ^ 63"

definition fits64 :: "int \<Rightarrow> bool" where
  "fits64 x \<longleftrightarrow> - (2 ^ 63) \<le> x \<and> x < 2 ^ 63"

text \<open>\<open>pow10\<close>: 1 for \<open>n \<le> 0\<close>, otherwise \<open>n\<close> multiplications by ten in \<open>int64\<close>.\<close>

definition pow10 :: "int \<Rightarrow> int" where
  "pow10 n = (if n \<le> 0 then 1 else ((\<lambda>result. i64 (result * 10)) ^^ nat n) 1)"

text \<open>Decimal rendering, as \<open>fmt.Sprintf("%d", n)\<close> and \<open>fmt.Sprintf("%0*d", w, n)\<close> do it.\<close>

definition digit :: "int \<Rightarrow> char" where
  "digit n = ''0123456789'' ! nat (n mod 10)"

function digits :: "int \<Rightarrow> string" where
  "digits n = (if n < 10 then [digit n] else digits (n div 10) @ [digit n])"
  by pat_completeness auto
termination
  by (relation "measure nat") auto

declare digits.simps [simp del]

definition sprintf_d :: "int \<Rightarrow> string" where
  "sprintf_d n = (if n < 0 then CHR ''-'' # digits (- n) else digits n)"

text \<open>
  \<open>%0*d\<close>: the width comes from the argument list. A non-negative width pads with zeros
  after the sign; a negative width means left-justified, which switches zero padding off
  and pads with blanks on the right.
\<close>

definition sprintf_0d :: "int \<Rightarrow> int \<Rightarrow> string" where
  "sprintf_0d w n =
     (if w < 0 then sprintf_d n @ replicate (nat (- w) - length (sprintf_d n)) CHR '' ''
      else (let sign = (if n < 0 then ''-'' else '''');
                ds = digits \<bar>n\<bar>
            in sign @ replicate (nat w - length sign - length ds) CHR ''0'' @ ds))"

section \<open>Configuration and errors (dispenser.go, strategy.go)\<close>

type_synonym Type = int
type_synonym IncrementalMode = string
type_synonym Charset = string
type_synonym UUIDFormat = string
type_synonym PersistenceStrategy = string

definition TypeNumericRandom :: Type where "TypeNumericRandom = 1"
definition TypeNumericIncremental :: Type where "TypeNumericIncremental = 2"
definition TypeAlphanumericRandom :: Type where "TypeAlphanumericRandom = 3"
definition TypeSnowflake :: Type where "TypeSnowflake = 4"
definition TypeUUID :: Type where "TypeUUID = 5"

definition IncrModeFixed :: IncrementalMode where "IncrModeFixed = ''fixed''"
definition IncrModeSequence :: IncrementalMode where "IncrModeSequence = ''sequence''"
definition CharsetHex :: Charset where "CharsetHex = ''hex''"
definition CharsetBase62 :: Charset where "CharsetBase62 = ''base62''"
definition UUIDFormatStandard :: UUIDFormat where "UUIDFormatStandard = ''standard''"
definition UUIDFormatCompact :: UUIDFormat where "UUIDFormatCompact = ''compact''"

definition StrategyMemory :: PersistenceStrategy where "StrategyMemory = ''memory''"
definition StrategyPreBase :: PersistenceStrategy where "StrategyPreBase = ''pre-base''"
definition StrategyPreCheckpoint :: PersistenceStrategy where
  "StrategyPreCheckpoint = ''pre-checkpoint''"
definition StrategyElegantClose :: PersistenceStrategy where
  "StrategyElegantClose = ''elegant_close''"
definition StrategyPreClose :: PersistenceStrategy where "StrategyPreClose = ''pre_close''"

definition ValidPersistenceStrategies :: "PersistenceStrategy \<Rightarrow> bool" where
  "ValidPersistenceStrategies s \<longleftrightarrow>
     s \<in> {StrategyMemory, StrategyPreBase, StrategyPreCheckpoint, StrategyElegantClose,
          StrategyPreClose}"

record Config =
  Type :: Type
  Length :: int
  Starting :: int
  Step :: int
  MachineID :: int
  DatacenterID :: int
  IncrMode :: IncrementalMode
  Charset :: Charset
  UUIDFormat :: UUIDFormat
  AutoDisk :: PersistenceStrategy
  UniqueCheck :: bool
  UniqueCacheSize :: int

text \<open>
  A Go \<open>error\<close>: the package's sentinel values, an ad-hoc \<open>errors.New\<close>/\<open>fmt.Errorf\<close>
  value with its message, an I/O failure of the state file, and a run-time panic.
\<close>

datatype error =
    ErrInvalidType | ErrInvalidLength | ErrInvalidStarting | ErrInvalidStep
  | ErrInvalidMachine | ErrNumberExhausted | ErrInvalidCharset | ErrInvalidFormat
  | ErrorNew string
  | ErrIO
  | Panic string

fun Error_msg :: "error \<Rightarrow> string" where
  "Error_msg ErrInvalidType = ''invalid dispenser type''"
| "Error_msg ErrInvalidLength = ''invalid length''"
| "Error_msg ErrInvalidStarting = ''invalid starting value''"
| "Error_msg ErrInvalidStep = ''invalid step value''"
| "Error_msg ErrInvalidMachine = ''invalid machine id''"
| "Error_msg ErrNumberExhausted = ''number range exhausted''"
| "Error_msg ErrInvalidCharset = ''invalid charset''"
| "Error_msg ErrInvalidFormat = ''invalid format''"
| "Error_msg (ErrorNew s) = s"
| "Error_msg ErrIO = ''input/output error''"
| "Error_msg (Panic s) = s"

definition validateConfig :: "Config \<Rightarrow> error option" where
  "validateConfig cfg =
     (if Type cfg < TypeNumericRandom \<or> Type cfg > TypeUUID then Some ErrInvalidType
      else if Type cfg = TypeNumericRandom then
        (if Length cfg \<le> 0 \<or> Length cfg > 18 then Some ErrInvalidLength else None)
      else if Type cfg = TypeNumericIncremental then
        (if IncrMode cfg = IncrModeFixed \<and> (Length cfg \<le> 0 \<or> Length cfg > 18)
           then Some ErrInvalidLength
         else if IncrMode cfg = IncrModeFixed \<and> Starting cfg \<ge> pow10 (Length cfg)
           then Some ErrInvalidStarting
         else if Starting cfg < 0 then Some ErrInvalidStarting
         else if Step cfg < 0 then Some ErrInvalidStep
         else None)
      else if Type cfg = TypeAlphanumericRandom then
        (if Length cfg \<le> 0 \<or> Length cfg > 64 then Some ErrInvalidLength
         else if Charset cfg \<noteq> '''' \<and> Charset cfg \<noteq> CharsetHex \<and> Charset cfg \<noteq> CharsetBase62
           then Some ErrInvalidCharset
         else None)
      else if Type cfg = TypeSnowflake then
        (if MachineID cfg < 0 \<or> MachineID cfg > 31 then Some ErrInvalidMachine
         else if DatacenterID cfg < 0 \<or> DatacenterID cfg > 31 then Some ErrInvalidMachine
         else None)
      else
        (if UUIDFormat cfg \<noteq> '''' \<and> UUIDFormat cfg \<noteq> UUIDFormatStandard
            \<and> UUIDFormat cfg \<noteq> UUIDFormatCompact
           then Some ErrInvalidFormat
         else None))"

section \<open>The basic dispenser (dispenser.go)\<close>

text \<open>
  What a call reads from outside the dispenser: the successive readings of
  \<open>time.Now().UnixNano() / 1e6\<close>, the result of \<open>crypto/rand.Read\<close> for a buffer of
  the given length, and the sequence that a \<open>math/rand\<close> generator seeded at this moment
  will produce. For the server it also holds what \<open>strings.ToLower\<close> returns for a string
  with a byte outside ASCII: that result comes from the Unicode case tables of the Go
  library, which are not written out here.
\<close>

record Env =
  clock :: "int list"
  cryptoRead :: "int \<Rightarrow> error + nat list"
  newRng :: "nat \<Rightarrow> int"
  unicodeLower :: "string \<Rightarrow> string"

text \<open>
  The struct \<open>Dispenser\<close> without its mutex. The generator \<open>rng\<close> is the sequence of its
  future raw outputs together with the number of outputs consumed so far; the map
  \<open>used\<close> only ever stores \<open>true\<close>, so it is the set of its keys (a nil map is the
  empty set).
\<close>

record Dispenser =
  config :: Config
  current :: int
  rng :: "nat \<Rightarrow> int"
  rngCalls :: nat
  segmentStart :: int
  segmentEnd :: int
  used :: "string set"
  seqCounter :: int
  lastTimestamp :: int
  snowflakeEpoch :: int
  totalGenerated :: int

definition NewDispenser :: "Env \<Rightarrow> Config \<Rightarrow> error + Dispenser" where
  "NewDispenser env cfg =
     (case validateConfig cfg of
        Some err \<Rightarrow> Inl err
      | None \<Rightarrow>
          (let d = \<lparr> config = cfg, current = 0, rng = newRng env, rngCalls = 0,
                     segmentStart = 0, segmentEnd = 0, used = {}, seqCounter = 0,
                     lastTimestamp = 0, snowflakeEpoch = 1288834974657, totalGenerated = 0 \<rparr>
           in Inr
             (if Type cfg = TypeNumericRandom then
                d\<lparr> config := (if \<not> UniqueCheck cfg then cfg\<lparr> UniqueCheck := True \<rparr> else cfg),
                   used := {} \<rparr>
              else if Type cfg = TypeNumericIncremental then
                (let c1 = (if Step cfg = 0 then cfg\<lparr> Step := 1 \<rparr> else cfg);
                     c2 = (if IncrMode c1 = '''' then
                             (if Length cfg > 0 then c1\<lparr> IncrMode := IncrModeFixed \<rparr>
                              else c1\<lparr> IncrMode := IncrModeSequence \<rparr>)
                           else c1)
                 in d\<lparr> current := Starting cfg, config := c2 \<rparr>)
              else if Type cfg = TypeAlphanumericRandom then
                (if Charset cfg = '''' then d\<lparr> config := cfg\<lparr> Charset := CharsetHex \<rparr> \<rparr> else d)
              else if Type cfg = TypeSnowflake then
                (if MachineID cfg = 0 then d\<lparr> config := cfg\<lparr> MachineID := 1 \<rparr> \<rparr> else d)
              else if Type cfg = TypeUUID then
                (if UUIDFormat cfg = '''' then
                   d\<lparr> config := cfg\<lparr> UUIDFormat := UUIDFormatStandard \<rparr> \<rparr>
                 else d)
              else d)))"

text \<open>
  \<open>rng.Int63n(n)\<close>: panics for \<open>n \<le> 0\<close>, otherwise some value in \<open>[0, n)\<close>; every
  sequence of such values arises from some raw sequence \<open>rng\<close>.
\<close>

definition Int63n :: "Dispenser \<Rightarrow> int \<Rightarrow> error + int \<times> Dispenser" where
  "Int63n d n =
     (if n \<le> 0 then Inl (Panic ''invalid argument to Int63n'')
      else Inr (rng d (rngCalls d) mod n, d\<lparr> rngCalls := rngCalls d + 1 \<rparr>))"

subsection \<open>Type 1: numeric random with de-duplication\<close>

text \<open>
  \<open>float64(usedCount)/float64(totalSpace) > 0.8\<close>. The quotient of two integers below
  \<open>2^53\<close> is the correctly rounded exact quotient and rounding is monotone, so the
  comparison with the literal \<open>0.8\<close> (the rounded \<open>4/5\<close>) is made on the exact quotient;
  a zero divisor gives \<open>+Inf\<close> for a positive count and \<open>NaN\<close>, which compares false,
  for zero.
\<close>

definition usage_exceeds :: "int \<Rightarrow> int \<Rightarrow> bool" where
  "usage_exceeds usedCount totalSpace =
     (if totalSpace = 0 then usedCount > 0
      else real_of_int usedCount / real_of_int totalSpace > 8 / 10)"

text \<open>The retry loop; the first argument counts the iterations that are left.\<close>

fun retry_unique :: "nat \<Rightarrow> int \<Rightarrow> int \<Rightarrow> Dispenser \<Rightarrow> (error + string) \<times> Dispenser" where
  "retry_unique 0 mn mx d =
     (Inl (ErrorNew ''failed to generate unique number after 100 retries''), d)"
| "retry_unique (Suc k) mn mx d =
     (case Int63n d (i64 (mx - mn + 1)) of
        Inl p \<Rightarrow> (Inl p, d)
      | Inr (r, d1) \<Rightarrow>
          (let num = i64 (mn + r);
               numStr = sprintf_0d (Length (config d1)) num
           in if numStr \<notin> used d1 then
                (Inr numStr, d1\<lparr> used := insert numStr (used d1),
                                 totalGenerated := i64 (totalGenerated d1 + 1) \<rparr>)
              else retry_unique k mn mx d1))"

definition nextNumericRandom :: "Dispenser \<Rightarrow> (error + string) \<times> Dispenser" where
  "nextNumericRandom d =
     (let mn = pow10 (i64 (Length (config d) - 1));
          mx = i64 (pow10 (Length (config d)) - 1);
          totalSpace = i64 (mx - mn + 1);
          usedCount = int (card (used d))
      in if usage_exceeds usedCount totalSpace then (Inl ErrNumberExhausted, d)
         else retry_unique 100 mn mx d)"

subsection \<open>Type 2: numeric incremental\<close>

definition nextIncrFixed :: "Dispenser \<Rightarrow> (error + string) \<times> Dispenser" where
  "nextIncrFixed d =
     (let maxValue = i64 (pow10 (Length (config d)) - 1)
      in if current d > maxValue then (Inl ErrNumberExhausted, d)
         else (let num = current d
               in (Inr (sprintf_0d (Length (config d)) num),
                   d\<lparr> current := i64 (current d + Step (config d)),
                      totalGenerated := i64 (totalGenerated d + 1) \<rparr>)))"

definition nextIncrSequence :: "Dispenser \<Rightarrow> (error + string) \<times> Dispenser" where
  "nextIncrSequence d =
     (let num = current d
      in (Inr (sprintf_d num),
          d\<lparr> current := i64 (current d + Step (config d)),
             totalGenerated := i64 (totalGenerated d + 1) \<rparr>))"

definition nextNumericIncremental :: "Dispenser \<Rightarrow> (error + string) \<times> Dispenser" where
  "nextNumericIncremental d =
     (if IncrMode (config d) = IncrModeFixed then nextIncrFixed d
      else if IncrMode (config d) = IncrModeSequence then nextIncrSequence d
      else nextIncrSequence d)"

text \<open>Consecutive calls on one dispenser, and the values of the successful ones.\<close>

fun calls :: "('s \<Rightarrow> 'r \<times> 's) \<Rightarrow> nat \<Rightarrow> 's \<Rightarrow> 'r list \<times> 's" where
  "calls f 0 s = ([], s)"
| "calls f (Suc n) s =
     (case f s of (r, s1) \<Rightarrow> (case calls f n s1 of (rs, s2) \<Rightarrow> (r # rs, s2)))"

fun oks :: "(error + 'a) list \<Rightarrow> 'a list" where
  "oks [] = []"
| "oks (Inl e # rs) = oks rs"
| "oks (Inr v # rs) = v # oks rs"

subsection \<open>Type 3: alphanumeric random\<close>

definition hexdigit :: "nat \<Rightarrow> char" where
  "hexdigit n = ''0123456789abcdef'' ! (n mod 16)"

definition EncodeToString :: "nat list \<Rightarrow> string" where
  "EncodeToString bs = concat (map (\<lambda>b. [hexdigit (b mod 256 div 16), hexdigit (b mod 16)]) bs)"

text \<open>\<open>rand.Read(buf)\<close> for a buffer of \<open>n\<close> bytes, \<open>n \<ge> 0\<close>: an error, or the buffer filled.\<close>

definition Read :: "Env \<Rightarrow> int \<Rightarrow> error + nat list" where
  "Read env n =
     (case cryptoRead env n of
        Inl err \<Rightarrow> Inl err
      | Inr bs \<Rightarrow> Inr (take (nat n) (bs @ replicate (nat n) 0)))"

definition nextHex :: "Env \<Rightarrow> Dispenser \<Rightarrow> (error + string) \<times> Dispenser" where
  "nextHex env d =
     (let n = sgn (i64 (Length (config d) + 1)) * (\<bar>i64 (Length (config d) + 1)\<bar> div 2)
      in if n < 0 then (Inl (Panic ''makeslice: len out of range''), d)
         else case Read env n of
                Inl err \<Rightarrow> (Inl err, d)
              | Inr bytes \<Rightarrow>
                  (let hexStr = EncodeToString bytes
                   in if int (length hexStr) > Length (config d) \<and> Length (config d) < 0
                        then (Inl (Panic ''slice bounds out of range''), d)
                      else (Inr (if int (length hexStr) > Length (config d)
                                 then take (nat (Length (config d))) hexStr else hexStr),
                            d\<lparr> totalGenerated := i64 (totalGenerated d + 1) \<rparr>)))"

definition base62Chars :: string where
  "base62Chars = ''0123456789ABCDEFGHIJKLMNOPQRSTUVWXYZabcdefghijklmnopqrstuvwxyz''"

fun base62_loop :: "nat \<Rightarrow> Dispenser \<Rightarrow> string \<times> Dispenser" where
  "base62_loop 0 d = ([], d)"
| "base62_loop (Suc k) d =
     (let c = base62Chars ! nat (rng d (rngCalls d) mod 62);
          d1 = d\<lparr> rngCalls := rngCalls d + 1 \<rparr>
      in case base62_loop k d1 of (cs, d2) \<Rightarrow> (c # cs, d2))"

definition nextBase62 :: "Dispenser \<Rightarrow> (error + string) \<times> Dispenser" where
  "nextBase62 d =
     (if Length (config d) < 0 then (Inl (Panic ''makeslice: len out of range''), d)
      else case base62_loop (nat (Length (config d))) d of
             (result, d1) \<Rightarrow> (Inr result, d1\<lparr> totalGenerated := i64 (totalGenerated d1 + 1) \<rparr>))"

definition nextAlphanumericRandom :: "Env \<Rightarrow> Dispenser \<Rightarrow> (error + string) \<times> Dispenser" where
  "nextAlphanumericRandom env d =
     (if Charset (config d) = CharsetHex then nextHex env d
      else if Charset (config d) = CharsetBase62 then nextBase62 d
      else nextHex env d)"

subsection \<open>Type 4: snowflake\<close>

text \<open>
  The busy wait \<open>for timestamp <= d.lastTimestamp\<close> reads the clock until it has moved on.
  It consumes the readings that the environment supplies; \<open>None\<close> means that the readings
  ran out with the loop still spinning, that is, the call has not returned.
\<close>

fun spin_wait :: "int \<Rightarrow> int \<Rightarrow> int list \<Rightarrow> int option" where
  "spin_wait lastTs t [] = (if t \<le> lastTs then None else Some t)"
| "spin_wait lastTs t (t' # ts) = (if t \<le> lastTs then spin_wait lastTs t' ts else Some t)"

text \<open>The identifier composed from the timestamp (epoch already subtracted) and the fields.\<close>

definition snowflake_id :: "Config \<Rightarrow> int \<Rightarrow> int \<Rightarrow> int" where
  "snowflake_id cfg timestamp seq =
     (let datacenterID = DatacenterID cfg AND 0x1F;
          machineID = MachineID cfg AND 0x1F
      in i64 (push_bit 22 timestamp) OR i64 (push_bit 17 datacenterID)
           OR i64 (push_bit 12 machineID) OR seq)"

definition nextSnowflake :: "Env \<Rightarrow> Dispenser \<Rightarrow> ((error + string) \<times> Dispenser) option" where
  "nextSnowflake env d =
     (case clock env of
        [] \<Rightarrow> None
      | t0 # ts \<Rightarrow>
          (let seq = (if t0 = lastTimestamp d then i64 (seqCounter d + 1) AND 0xFFF else 0);
               waited = (if t0 = lastTimestamp d \<and> seq = 0
                         then spin_wait (lastTimestamp d) t0 ts else Some t0)
           in case waited of
                None \<Rightarrow> None
              | Some timestamp \<Rightarrow>
                  (let id = snowflake_id (config d) (i64 (timestamp - snowflakeEpoch d)) seq
                   in Some (Inr (sprintf_d id),
                            d\<lparr> seqCounter := seq, lastTimestamp := timestamp,
                               totalGenerated := i64 (totalGenerated d + 1) \<rparr>))))"

subsection \<open>Type 5: UUID version 4\<close>

definition nextUUID :: "Env \<Rightarrow> Dispenser \<Rightarrow> (error + string) \<times> Dispenser" where
  "nextUUID env d =
     (case Read env 16 of
        Inl err \<Rightarrow> (Inl err, d)
      | Inr uuid0 \<Rightarrow>
          (let uuid1 = uuid0[6 := ((uuid0 ! 6) AND 0x0f) OR 0x40];
               uuid = uuid1[8 := ((uuid1 ! 8) AND 0x3f) OR 0x80];
               d1 = d\<lparr> totalGenerated := i64 (totalGenerated d + 1) \<rparr>
           in if UUIDFormat (config d) = UUIDFormatCompact then (Inr (EncodeToString uuid), d1)
              else (Inr (EncodeToString (take 4 uuid) @ ''-''
                         @ EncodeToString (take 2 (drop 4 uuid)) @ ''-''
                         @ EncodeToString (take 2 (drop 6 uuid)) @ ''-''
                         @ EncodeToString (take 2 (drop 8 uuid)) @ ''-''
                         @ EncodeToString (take 6 (drop 10 uuid))), d1)))"

subsection \<open>Dispatch, accessors\<close>

definition Next :: "Env \<Rightarrow> Dispenser \<Rightarrow> ((error + string) \<times> Dispenser) option" where
  "Next env d =
     (if Type (config d) = TypeNumericRandom then Some (nextNumericRandom d)
      else if Type (config d) = TypeNumericIncremental then Some (nextNumericIncremental d)
      else if Type (config d) = TypeAlphanumericRandom then Some (nextAlphanumericRandom env d)
      else if Type (config d) = TypeSnowflake then nextSnowflake env d
      else if Type (config d) = TypeUUID then Some (nextUUID env d)
      else Some (Inl ErrInvalidType, d))"

definition GetConfig :: "Dispenser \<Rightarrow> Config" where
  "GetConfig d = config d"

definition GetCurrent :: "Dispenser \<Rightarrow> int" where
  "GetCurrent d = current d"

definition SetCurrent :: "Dispenser \<Rightarrow> int \<Rightarrow> Dispenser" where
  "SetCurrent d c = d\<lparr> current := c \<rparr>"

section \<open>The optimized segment dispenser (segment_optimized.go)\<close>

text \<open>
  The persistence callback \<open>persistFunc func(int64) error\<close> acts on a state of type \<open>'h\<close>
  (the state file in the server, a recording double below); \<open>None\<close> is a nil callback.
  The struct is modelled without its two mutexes; every method below runs as one step.
  \<open>osd_preloads\<close> counts the goroutines \<open>go osd.preloadNextSegment()\<close> that have been
  started and have not run yet, \<open>osd_ticker\<close> says that the checkpoint ticker runs and
  \<open>osd_stopped\<close> that \<open>stopChan\<close> is closed.
\<close>

record 'h OptimizedSegmentDispenser =
  osd_config :: Config
  osd_currentNumber :: int
  osd_segmentEnd :: int
  osd_segmentSize :: int
  osd_threshold :: real
  osd_nextSegmentStart :: int
  osd_nextSegmentEnd :: int
  osd_nextSegmentReady :: bool
  osd_persistFunc :: "(int \<Rightarrow> 'h \<Rightarrow> error option \<times> 'h) option"
  osd_lastPersisted :: int
  osd_ticker :: bool
  osd_stopped :: bool
  osd_totalGenerated :: int
  osd_totalWasted :: int
  osd_preloads :: nat

text \<open>Calling a possibly nil callback, as \<open>if persistFunc != nil { err := persistFunc(v) }\<close>.\<close>

definition call_persist ::
  "(int \<Rightarrow> 'h \<Rightarrow> error option \<times> 'h) option \<Rightarrow> int \<Rightarrow> 'h \<Rightarrow> error option \<times> 'h" where
  "call_persist pf v h = (case pf of None \<Rightarrow> (None, h) | Some f \<Rightarrow> f v h)"

definition allocateSegment_osd ::
  "'h OptimizedSegmentDispenser \<Rightarrow> int \<Rightarrow> 'h
     \<Rightarrow> error option \<times> 'h OptimizedSegmentDispenser \<times> 'h" where
  "allocateSegment_osd osd start h =
     (let end0 = i64 (start + i64 (osd_segmentSize osd * Step (osd_config osd)));
          maxValue = i64 (pow10 (Length (osd_config osd)) - 1)
      in if IncrMode (osd_config osd) = IncrModeFixed \<and> start \<ge> maxValue
           then (Some ErrNumberExhausted, osd, h)
         else
           (let end1 = (if IncrMode (osd_config osd) = IncrModeFixed \<and> end0 > maxValue
                        then i64 (maxValue + 1) else end0)
            in case call_persist (osd_persistFunc osd) end1 h of
                 (Some err, h') \<Rightarrow> (Some err, osd, h')
               | (None, h') \<Rightarrow>
                   (None, osd\<lparr> osd_currentNumber := start, osd_segmentEnd := end1,
                                 osd_lastPersisted := end1 \<rparr>, h')))"

definition NewOptimizedSegmentDispenser ::
  "Config \<Rightarrow> int \<Rightarrow> real \<Rightarrow> int \<Rightarrow> (int \<Rightarrow> 'h \<Rightarrow> error option \<times> 'h) option \<Rightarrow> 'h
     \<Rightarrow> (error + 'h OptimizedSegmentDispenser) \<times> 'h" where
  "NewOptimizedSegmentDispenser cfg segmentSize threshold checkpointInterval persistFunc h =
     (case validateConfig cfg of
        Some err \<Rightarrow> (Inl err, h)
      | None \<Rightarrow>
          (let osd = \<lparr> osd_config = (if Step cfg = 0 then cfg\<lparr> Step := 1 \<rparr> else cfg),
                       osd_currentNumber = 0, osd_segmentEnd = 0,
                       osd_segmentSize = (if segmentSize \<le> 0 then 100 else segmentSize),
                       osd_threshold = (if threshold \<le> 0 \<or> threshold \<ge> 1 then 2 / 10
                                        else threshold),
                       osd_nextSegmentStart = 0, osd_nextSegmentEnd = 0,
                       osd_nextSegmentReady = False, osd_persistFunc = persistFunc,
                       osd_lastPersisted = 0, osd_ticker = False, osd_stopped = False,
                       osd_totalGenerated = 0, osd_totalWasted = 0, osd_preloads = 0 \<rparr>
           in case allocateSegment_osd osd (Starting cfg) h of
                (Some err, osd', h') \<Rightarrow> (Inl err, h')
              | (None, osd', h') \<Rightarrow>
                  (Inr (if checkpointInterval > 0 then osd'\<lparr> osd_ticker := True \<rparr> else osd'),
                   h')))"

text \<open>
  \<open>remaining <= threshold\<close> with
  \<open>remaining := float64(segmentEnd-currentNumber) / float64(segmentSize*Step)\<close>, on the
  exact quotient (exact for operands below \<open>2^53\<close>); a zero divisor gives an infinity or
  \<open>NaN\<close>, and only minus infinity passes the test.
\<close>

definition remaining_low :: "int \<Rightarrow> int \<Rightarrow> real \<Rightarrow> bool" where
  "remaining_low left whole threshold =
     (if whole = 0 then left < 0 else real_of_int left / real_of_int whole \<le> threshold)"

definition Next_osd ::
  "'h OptimizedSegmentDispenser \<Rightarrow> 'h
     \<Rightarrow> (error + string) \<times> 'h OptimizedSegmentDispenser \<times> 'h" where
  "Next_osd osd h =
     (if Type (osd_config osd) \<noteq> TypeNumericIncremental
        then (Inl (ErrorNew ''segment allocation only supported for incremental type''), osd, h)
      else
        (let switched =
               (if osd_currentNumber osd \<ge> osd_segmentEnd osd then
                  (if osd_nextSegmentReady osd then
                     (None,
                      osd\<lparr> osd_totalWasted :=
                             i64 (osd_totalWasted osd
                                  + i64 (osd_segmentEnd osd - osd_lastPersisted osd)),
                           osd_currentNumber := osd_nextSegmentStart osd,
                           osd_segmentEnd := osd_nextSegmentEnd osd,
                           osd_nextSegmentReady := False \<rparr>, h)
                   else allocateSegment_osd osd (osd_segmentEnd osd) h)
                else (None, osd, h))
         in case switched of
              (Some err, osd1, h1) \<Rightarrow> (Inl err, osd1, h1)
            | (None, osd1, h1) \<Rightarrow>
                (let num = osd_currentNumber osd1;
                     osd2 = osd1\<lparr> osd_currentNumber :=
                                    i64 (osd_currentNumber osd1 + Step (osd_config osd1)),
                                  osd_totalGenerated := i64 (osd_totalGenerated osd1 + 1) \<rparr>;
                     osd3 = (if remaining_low
                                  (i64 (osd_segmentEnd osd2 - osd_currentNumber osd2))
                                  (i64 (osd_segmentSize osd2 * Step (osd_config osd2)))
                                  (osd_threshold osd2)
                                \<and> \<not> osd_nextSegmentReady osd2
                             then osd2\<lparr> osd_preloads := osd_preloads osd2 + 1 \<rparr> else osd2)
                 in (Inr (if IncrMode (osd_config osd3) = IncrModeFixed
                          then sprintf_0d (Length (osd_config osd3)) num else sprintf_d num),
                     osd3, h1))))"

text \<open>One started \<open>preloadNextSegment\<close> goroutine runs; without one nothing happens.\<close>

definition preloadNextSegment_osd ::
  "'h OptimizedSegmentDispenser \<Rightarrow> 'h \<Rightarrow> 'h OptimizedSegmentDispenser \<times> 'h" where
  "preloadNextSegment_osd osd h =
     (if osd_preloads osd = 0 then (osd, h)
      else
        (let osd0 = osd\<lparr> osd_preloads := osd_preloads osd - 1 \<rparr>
         in if osd_nextSegmentReady osd0 then (osd0, h)
            else
              (let start = osd_segmentEnd osd0;
                   end1 = i64 (start + i64 (osd_segmentSize osd0 * Step (osd_config osd0)))
               in case call_persist (osd_persistFunc osd0) end1 h of
                    (Some err, h') \<Rightarrow> (osd0, h')
                  | (None, h') \<Rightarrow>
                      (osd0\<lparr> osd_nextSegmentStart := start, osd_nextSegmentEnd := end1,
                             osd_nextSegmentReady := True \<rparr>, h'))))"

definition checkpoint ::
  "'h OptimizedSegmentDispenser \<Rightarrow> 'h
     \<Rightarrow> error option \<times> 'h OptimizedSegmentDispenser \<times> 'h" where
  "checkpoint osd h =
     (let cur = osd_currentNumber osd
      in if cur \<noteq> osd_lastPersisted osd \<and> osd_persistFunc osd \<noteq> None then
           (case call_persist (osd_persistFunc osd) cur h of
              (Some err, h') \<Rightarrow> (Some err, osd, h')
            | (None, h') \<Rightarrow> (None, osd\<lparr> osd_lastPersisted := cur \<rparr>, h'))
         else (None, osd, h))"

definition GracefulShutdown ::
  "'h OptimizedSegmentDispenser \<Rightarrow> 'h
     \<Rightarrow> error option \<times> 'h OptimizedSegmentDispenser \<times> 'h" where
  "GracefulShutdown osd h =
     (if osd_stopped osd then (Some (Panic ''close of closed channel''), osd, h)
      else
        (let osd1 = osd\<lparr> osd_ticker := False, osd_stopped := True \<rparr>;
             cur = osd_currentNumber osd1;
             lastPersisted = osd_lastPersisted osd1
         in case call_persist (osd_persistFunc osd1) cur h of
              (Some err, h') \<Rightarrow> (Some err, osd1, h')
            | (None, h') \<Rightarrow>
                (None,
                 (if lastPersisted > cur
                  then osd1\<lparr> osd_totalWasted :=
                               i64 (osd_totalWasted osd1 + i64 (lastPersisted - cur)) \<rparr>
                  else osd1), h')))"

definition GetCurrent_osd :: "'h OptimizedSegmentDispenser \<Rightarrow> int" where
  "GetCurrent_osd osd = osd_currentNumber osd"

definition SetCurrent_osd :: "'h OptimizedSegmentDispenser \<Rightarrow> int \<Rightarrow> 'h OptimizedSegmentDispenser" where
  "SetCurrent_osd osd c = osd\<lparr> osd_currentNumber := c \<rparr>"

text \<open>
  A persistence callback that records its calls, in the manner of \<open>mockPersist\<close> of the
  tests: the \<open>k\<close>-th call answers \<open>answers k\<close> and every call is written to \<open>log\<close> with
  its argument and its answer.
\<close>

record Recorder =
  answers :: "nat \<Rightarrow> error option"
  log :: "(int \<times> error option) list"

definition recordPersist :: "int \<Rightarrow> Recorder \<Rightarrow> error option \<times> Recorder" where
  "recordPersist v h =
     (let r = answers h (length (log h)) in (r, h\<lparr> log := log h @ [(v, r)] \<rparr>))"

text \<open>The arguments with which the callback has returned success so far.\<close>

definition committed :: "Recorder \<Rightarrow> int set" where
  "committed h = {v. (v, None) \<in> set (log h)}"

text \<open>
  What can happen to a dispenser during one process run: a client calls \<open>Next\<close>, a started
  prefetch goroutine runs, the checkpoint ticker fires, or \<open>SetCurrent\<close> is called (at
  start-up and on a change of strategy). A run returns the results of its \<open>Next\<close> calls,
  each with the callback's record at the moment the call returned.
\<close>

datatype event = EvNext | EvPreload | EvCheckpoint | EvSetCurrent int

fun run_osd ::
  "event list \<Rightarrow> Recorder OptimizedSegmentDispenser \<Rightarrow> Recorder
     \<Rightarrow> ((error + string) \<times> Recorder) list \<times> Recorder OptimizedSegmentDispenser \<times> Recorder" where
  "run_osd [] osd h = ([], osd, h)"
| "run_osd (EvNext # es) osd h =
     (case Next_osd osd h of
        (r, osd1, h1) \<Rightarrow>
          (case run_osd es osd1 h1 of (rs, osd2, h2) \<Rightarrow> ((r, h1) # rs, osd2, h2)))"
| "run_osd (EvPreload # es) osd h =
     (case preloadNextSegment_osd osd h of (osd1, h1) \<Rightarrow> run_osd es osd1 h1)"
| "run_osd (EvCheckpoint # es) osd h =
     (case checkpoint osd h of (e, osd1, h1) \<Rightarrow> run_osd es osd1 h1)"
| "run_osd (EvSetCurrent c # es) osd h = run_osd es (SetCurrent_osd osd c) h"

text \<open>
  The invariant of a run. \<open>cfg\<close> and \<open>S\<close> are the configuration and the segment size,
  which no method changes, and \<open>b\<close> bounds the segment ends allocated so far. The end of the
  current segment has been committed, and so has the end of a prefetched segment once it is
  marked ready. With \<open>al\<close> the position is known to lie on the grid of the current segment
  (which \<open>SetCurrent\<close> does not promise), unless the segment was cut at the cap of the
  fixed-width mode.
\<close>

definition seg_inv ::
  "Config \<Rightarrow> int \<Rightarrow> bool \<Rightarrow> int \<Rightarrow> Recorder OptimizedSegmentDispenser \<Rightarrow> Recorder \<Rightarrow> bool" where
  "seg_inv cfg S al b osd h \<longleftrightarrow>
     osd_config osd = cfg \<and> osd_segmentSize osd = S
     \<and> osd_persistFunc osd = Some recordPersist
     \<and> Type cfg = TypeNumericIncremental \<and> 0 < S \<and> 0 < Step cfg
     \<and> (IncrMode cfg = IncrModeFixed \<longrightarrow> 1 \<le> Length cfg \<and> Length cfg \<le> 18)
     \<and> 0 \<le> osd_segmentEnd osd \<and> osd_segmentEnd osd \<le> b
     \<and> osd_segmentEnd osd \<in> committed h
     \<and> (osd_nextSegmentReady osd \<longrightarrow>
          osd_nextSegmentEnd osd \<in> committed h \<and> 0 \<le> osd_nextSegmentStart osd
          \<and> osd_nextSegmentStart osd + S * Step cfg = osd_nextSegmentEnd osd
          \<and> osd_nextSegmentEnd osd \<le> b)
     \<and> (al \<longrightarrow>
          (0 \<le> osd_currentNumber osd \<and> osd_currentNumber osd \<le> osd_segmentEnd osd
           \<and> Step cfg dvd (osd_segmentEnd osd - osd_currentNumber osd))
          \<or> (IncrMode cfg = IncrModeFixed \<and> osd_segmentEnd osd = 10 ^ nat (Length cfg)))"

section \<open>The basic segment dispenser (segment.go)\<close>

text \<open>
  \<open>segment.go\<close> is written against the three kinds of the dispenser version it belongs to:
  fixed-width random, fixed-width increment and increment from zero. Its configuration
  has the fields \<open>Type\<close>, \<open>Length\<close>, \<open>Starting\<close>, \<open>Step\<close> and \<open>AutoDisk\<close> of \<open>Config\<close>,
  and its \<open>validateConfig\<close> is the one of that version.
\<close>

definition TypeRandomFixed :: Type where "TypeRandomFixed = 1"
definition TypeIncrFixed :: Type where "TypeIncrFixed = 2"
definition TypeIncrZero :: Type where "TypeIncrZero = 3"

definition validateConfig_sd :: "Config \<Rightarrow> error option" where
  "validateConfig_sd cfg =
     (if Type cfg < TypeRandomFixed \<or> Type cfg > TypeIncrZero then Some ErrInvalidType
      else if Type cfg = TypeRandomFixed \<and> (Length cfg \<le> 0 \<or> Length cfg > 18)
        then Some ErrInvalidLength
      else if Type cfg = TypeIncrFixed \<and> (Length cfg \<le> 0 \<or> Length cfg > 18)
        then Some ErrInvalidLength
      else if Type cfg = TypeIncrFixed \<and> Starting cfg < 0 then Some ErrInvalidStarting
      else if Type cfg = TypeIncrFixed \<and> Starting cfg \<ge> pow10 (Length cfg)
        then Some ErrInvalidStarting
      else if Type cfg = TypeIncrZero \<and> Starting cfg < 0 then Some ErrInvalidStarting
      else if Step cfg < 0 then Some ErrInvalidStep
      else None)"

record 'h SegmentDispenser =
  sd_config :: Config
  sd_currentNumber :: int
  sd_segmentEnd :: int
  sd_segmentSize :: int
  sd_threshold :: real
  sd_nextSegmentStart :: int
  sd_nextSegmentEnd :: int
  sd_nextSegmentReady :: bool
  sd_persistFunc :: "(int \<Rightarrow> 'h \<Rightarrow> error option \<times> 'h) option"
  sd_preloads :: nat

definition allocateSegment_sd ::
  "'h SegmentDispenser \<Rightarrow> int \<Rightarrow> 'h \<Rightarrow> error option \<times> 'h SegmentDispenser \<times> 'h" where
  "allocateSegment_sd sd start h =
     (let end0 = i64 (start + i64 (sd_segmentSize sd * Step (sd_config sd)));
          maxValue = i64 (pow10 (Length (sd_config sd)) - 1)
      in if Type (sd_config sd) = TypeIncrFixed \<and> start \<ge> maxValue
           then (Some ErrNumberExhausted, sd, h)
         else
           (let end1 = (if Type (sd_config sd) = TypeIncrFixed \<and> end0 > maxValue
                        then i64 (maxValue + 1) else end0)
            in case call_persist (sd_persistFunc sd) end1 h of
                 (Some err, h') \<Rightarrow> (Some err, sd, h')
               | (None, h') \<Rightarrow>
                   (None, sd\<lparr> sd_currentNumber := start, sd_segmentEnd := end1 \<rparr>, h')))"

definition NewSegmentDispenser ::
  "Config \<Rightarrow> int \<Rightarrow> real \<Rightarrow> (int \<Rightarrow> 'h \<Rightarrow> error option \<times> 'h) option \<Rightarrow> 'h
     \<Rightarrow> (error + 'h SegmentDispenser) \<times> 'h" where
  "NewSegmentDispenser cfg segmentSize threshold persistFunc h =
     (case validateConfig_sd cfg of
        Some err \<Rightarrow> (Inl err, h)
      | None \<Rightarrow>
          (let sd = \<lparr> sd_config = (if Step cfg = 0 then cfg\<lparr> Step := 1 \<rparr> else cfg),
                      sd_currentNumber = 0, sd_segmentEnd = 0,
                      sd_segmentSize = (if segmentSize \<le> 0 then 100 else segmentSize),
                      sd_threshold = (if threshold \<le> 0 \<or> threshold \<ge> 1 then 2 / 10
                                      else threshold),
                      sd_nextSegmentStart = 0, sd_nextSegmentEnd = 0,
                      sd_nextSegmentReady = False, sd_persistFunc = persistFunc,
                      sd_preloads = 0 \<rparr>;
               start = (if Type cfg = TypeIncrZero \<and> Starting cfg = 0 then 0 else Starting cfg)
           in case allocateSegment_sd sd start h of
                (Some err, sd', h') \<Rightarrow> (Inl err, h')
              | (None, sd', h') \<Rightarrow> (Inr sd', h')))"

text \<open>\<open>nextRandom\<close>: the smallest number of the configured length, every time.\<close>

definition nextRandom :: "'h SegmentDispenser \<Rightarrow> error + string" where
  "nextRandom sd =
     Inr (sprintf_0d (Length (sd_config sd))
            (((\<lambda>mn. i64 (mn * 10)) ^^ nat (Length (sd_config sd) - 1)) 1))"

definition Next_sd ::
  "'h SegmentDispenser \<Rightarrow> 'h \<Rightarrow> (error + string) \<times> 'h SegmentDispenser \<times> 'h" where
  "Next_sd sd h =
     (if Type (sd_config sd) = TypeRandomFixed then (nextRandom sd, sd, h)
      else
        (let switched =
               (if sd_currentNumber sd \<ge> sd_segmentEnd sd then
                  (if sd_nextSegmentReady sd then
                     (None,
                      sd\<lparr> sd_currentNumber := sd_nextSegmentStart sd,
                          sd_segmentEnd := sd_nextSegmentEnd sd,
                          sd_nextSegmentReady := False \<rparr>, h)
                   else allocateSegment_sd sd (sd_segmentEnd sd) h)
                else (None, sd, h))
         in case switched of
              (Some err, sd1, h1) \<Rightarrow> (Inl err, sd1, h1)
            | (None, sd1, h1) \<Rightarrow>
                (let num = sd_currentNumber sd1;
                     sd2 = sd1\<lparr> sd_currentNumber :=
                                  i64 (sd_currentNumber sd1 + Step (sd_config sd1)) \<rparr>;
                     sd3 = (if remaining_low
                                 (i64 (sd_segmentEnd sd2 - sd_currentNumber sd2))
                                 (i64 (sd_segmentSize sd2 * Step (sd_config sd2)))
                                 (sd_threshold sd2)
                               \<and> \<not> sd_nextSegmentReady sd2
                            then sd2\<lparr> sd_preloads := sd_preloads sd2 + 1 \<rparr> else sd2)
                 in (if Type (sd_config sd3) = TypeIncrFixed
                       then Inr (sprintf_0d (Length (sd_config sd3)) num)
                     else if Type (sd_config sd3) = TypeIncrZero then Inr (sprintf_d num)
                     else Inl ErrInvalidType,
                     sd3, h1))))"

definition preloadNextSegment_sd ::
  "'h SegmentDispenser \<Rightarrow> 'h \<Rightarrow> 'h SegmentDispenser \<times> 'h" where
  "preloadNextSegment_sd sd h =
     (if sd_preloads sd = 0 then (sd, h)
      else
        (let sd0 = sd\<lparr> sd_preloads := sd_preloads sd - 1 \<rparr>
         in if sd_nextSegmentReady sd0 then (sd0, h)
            else
              (let start = sd_segmentEnd sd0;
                   end1 = i64 (start + i64 (sd_segmentSize sd0 * Step (sd_config sd0)))
               in case call_persist (sd_persistFunc sd0) end1 h of
                    (Some err, h') \<Rightarrow> (sd0, h')
                  | (None, h') \<Rightarrow>
                      (sd0\<lparr> sd_nextSegmentStart := start, sd_nextSegmentEnd := end1,
                            sd_nextSegmentReady := True \<rparr>, h'))))"

text \<open>\<open>GetCurrent\<close> of the segment dispenser returns the end of the segment.\<close>

definition GetCurrent_sd :: "'h SegmentDispenser \<Rightarrow> int" where
  "GetCurrent_sd sd = sd_segmentEnd sd"

definition SetCurrent_sd :: "'h SegmentDispenser \<Rightarrow> int \<Rightarrow> 'h SegmentDispenser" where
  "SetCurrent_sd sd c = sd\<lparr> sd_currentNumber := c \<rparr>"

text \<open>
  A run of the basic segment dispenser, as \<open>run_osd\<close> for the optimized one. It has no
  checkpoint, so that event changes nothing. Its invariant is \<open>seg_inv\<close> with the kind
  \<open>TypeIncrFixed\<close> in the place of the fixed mode.
\<close>

fun run_sd ::
  "event list \<Rightarrow> Recorder SegmentDispenser \<Rightarrow> Recorder
     \<Rightarrow> ((error + string) \<times> Recorder) list \<times> Recorder SegmentDispenser \<times> Recorder" where
  "run_sd [] sd h = ([], sd, h)"
| "run_sd (EvNext # es) sd h =
     (case Next_sd sd h of
        (r, sd1, h1) \<Rightarrow>
          (case run_sd es sd1 h1 of (rs, sd2, h2) \<Rightarrow> ((r, h1) # rs, sd2, h2)))"
| "run_sd (EvPreload # es) sd h =
     (case preloadNextSegment_sd sd h of (sd1, h1) \<Rightarrow> run_sd es sd1 h1)"
| "run_sd (EvCheckpoint # es) sd h = run_sd es sd h"
| "run_sd (EvSetCurrent c # es) sd h = run_sd es (SetCurrent_sd sd c) h"

definition seg_inv_sd ::
  "Config \<Rightarrow> int \<Rightarrow> bool \<Rightarrow> int \<Rightarrow> Recorder SegmentDispenser \<Rightarrow> Recorder \<Rightarrow> bool" where
  "seg_inv_sd cfg S al b sd h \<longleftrightarrow>
     sd_config sd = cfg \<and> sd_segmentSize sd = S
     \<and> sd_persistFunc sd = Some recordPersist
     \<and> (Type cfg = TypeIncrFixed \<or> Type cfg = TypeIncrZero) \<and> 0 < S \<and> 0 < Step cfg
     \<and> (Type cfg = TypeIncrFixed \<longrightarrow> 1 \<le> Length cfg \<and> Length cfg \<le> 18)
     \<and> 0 \<le> sd_segmentEnd sd \<and> sd_segmentEnd sd \<le> b
     \<and> sd_segmentEnd sd \<in> committed h
     \<and> (sd_nextSegmentReady sd \<longrightarrow>
          sd_nextSegmentEnd sd \<in> committed h \<and> 0 \<le> sd_nextSegmentStart sd
          \<and> sd_nextSegmentStart sd + S * Step cfg = sd_nextSegmentEnd sd
          \<and> sd_nextSegmentEnd sd \<le> b)
     \<and> (al \<longrightarrow>
          (0 \<le> sd_currentNumber sd \<and> sd_currentNumber sd \<le> sd_segmentEnd sd
           \<and> Step cfg dvd (sd_segmentEnd sd - sd_currentNumber sd))
          \<or> (Type cfg = TypeIncrFixed \<and> sd_segmentEnd sd = 10 ^ nat (Length cfg)))"

section \<open>The state file (storage.go)\<close>

text \<open>
  \<open>FileStorage\<close>: the in-memory snapshot \<open>data\<close> and the file on \<open>disk\<close>. Whether the
  \<open>k\<close>-th attempt to rewrite the file fails is given by \<open>writeFails\<close>. The timestamp
  \<open>Updated\<close> of an entry is left out.
\<close>

record DispenserData =
  data_Config :: Config
  data_Current :: int

record Storage =
  data :: "string \<rightharpoonup> DispenserData"
  autoSave :: bool
  dirty :: bool
  disk :: "string \<rightharpoonup> DispenserData"
  writeFails :: "nat \<Rightarrow> bool"
  writes :: nat

definition saveToDisk :: "Storage \<Rightarrow> error option \<times> Storage" where
  "saveToDisk fs =
     (if writeFails fs (writes fs) then (Some ErrIO, fs\<lparr> writes := writes fs + 1 \<rparr>)
      else (None, fs\<lparr> disk := data fs, dirty := False, writes := writes fs + 1 \<rparr>))"

definition Save :: "string \<Rightarrow> Config \<Rightarrow> int \<Rightarrow> Storage \<Rightarrow> error option \<times> Storage" where
  "Save name cfg cur fs =
     (let fs1 = fs\<lparr> data := (data fs)(name \<mapsto> \<lparr> data_Config = cfg, data_Current = cur \<rparr>),
                     dirty := True \<rparr>
      in if \<not> autoSave fs1 then saveToDisk fs1 else (None, fs1))"

definition Delete :: "string \<Rightarrow> Storage \<Rightarrow> error option \<times> Storage" where
  "Delete name fs =
     (let fs1 = fs\<lparr> data := (data fs)(name := None), dirty := True \<rparr>
      in if \<not> autoSave fs1 then saveToDisk fs1 else (None, fs1))"

definition ListAll :: "Storage \<Rightarrow> (string \<rightharpoonup> DispenserData)" where
  "ListAll fs = data fs"

definition Flush :: "Storage \<Rightarrow> error option \<times> Storage" where
  "Flush fs = (if \<not> dirty fs then (None, fs) else saveToDisk fs)"

section \<open>The interface and the factory (interface.go, factory.go)\<close>

datatype NumberDispenser =
    Basic Dispenser
  | Seg "Storage SegmentDispenser"
  | Opt "Storage OptimizedSegmentDispenser"

definition Next_nd ::
  "Env \<Rightarrow> NumberDispenser \<Rightarrow> Storage \<Rightarrow> ((error + string) \<times> NumberDispenser \<times> Storage) option" where
  "Next_nd env nd fs =
     (case nd of
        Basic d \<Rightarrow> (case Next env d of None \<Rightarrow> None | Some (r, d') \<Rightarrow> Some (r, Basic d', fs))
      | Seg sd \<Rightarrow> (case Next_sd sd fs of (r, sd', fs') \<Rightarrow> Some (r, Seg sd', fs'))
      | Opt osd \<Rightarrow> (case Next_osd osd fs of (r, osd', fs') \<Rightarrow> Some (r, Opt osd', fs')))"

definition GetConfig_nd :: "NumberDispenser \<Rightarrow> Config" where
  "GetConfig_nd nd =
     (case nd of Basic d \<Rightarrow> GetConfig d | Seg sd \<Rightarrow> sd_config sd | Opt osd \<Rightarrow> osd_config osd)"

definition GetCurrent_nd :: "NumberDispenser \<Rightarrow> int" where
  "GetCurrent_nd nd =
     (case nd of Basic d \<Rightarrow> GetCurrent d | Seg sd \<Rightarrow> GetCurrent_sd sd
      | Opt osd \<Rightarrow> GetCurrent_osd osd)"

definition SetCurrent_nd :: "NumberDispenser \<Rightarrow> int \<Rightarrow> NumberDispenser" where
  "SetCurrent_nd nd c =
     (case nd of Basic d \<Rightarrow> Basic (SetCurrent d c) | Seg sd \<Rightarrow> Seg (SetCurrent_sd sd c)
      | Opt osd \<Rightarrow> Opt (SetCurrent_osd osd c))"

definition Shutdown_nd ::
  "NumberDispenser \<Rightarrow> Storage \<Rightarrow> error option \<times> NumberDispenser \<times> Storage" where
  "Shutdown_nd nd fs =
     (case nd of
        Basic d \<Rightarrow> (None, nd, fs)
      | Seg sd \<Rightarrow> (None, nd, fs)
      | Opt osd \<Rightarrow> (case GracefulShutdown osd fs of (e, osd', fs') \<Rightarrow> (e, Opt osd', fs')))"

text \<open>A prefetch goroutine or the checkpoint ticker of a registered dispenser runs.\<close>

definition preload_nd :: "NumberDispenser \<Rightarrow> Storage \<Rightarrow> NumberDispenser \<times> Storage" where
  "preload_nd nd fs =
     (case nd of
        Basic d \<Rightarrow> (nd, fs)
      | Seg sd \<Rightarrow> (case preloadNextSegment_sd sd fs of (sd', fs') \<Rightarrow> (Seg sd', fs'))
      | Opt osd \<Rightarrow> (case preloadNextSegment_osd osd fs of (osd', fs') \<Rightarrow> (Opt osd', fs')))"

record DispenserFactory =
  persistFunc :: "(string \<Rightarrow> Config \<Rightarrow> int \<Rightarrow> Storage \<Rightarrow> error option \<times> Storage) option"

text \<open>The closure that the factory hands to a segment dispenser.\<close>

definition factory_persist ::
  "DispenserFactory \<Rightarrow> string \<Rightarrow> Config \<Rightarrow> int \<Rightarrow> Storage \<Rightarrow> error option \<times> Storage" where
  "factory_persist f name cfg val fs =
     (case persistFunc f of None \<Rightarrow> (None, fs) | Some p \<Rightarrow> p name cfg val fs)"

definition lift_new :: "('a \<Rightarrow> NumberDispenser) \<Rightarrow> (error + 'a) \<times> Storage
     \<Rightarrow> (error + NumberDispenser) \<times> Storage" where
  "lift_new wrap r = (case r of (Inl e, fs) \<Rightarrow> (Inl e, fs) | (Inr d, fs) \<Rightarrow> (Inr (wrap d), fs))"

definition CreateDispenser ::
  "Env \<Rightarrow> DispenserFactory \<Rightarrow> string \<Rightarrow> Config \<Rightarrow> Storage
     \<Rightarrow> (error + NumberDispenser) \<times> Storage" where
  "CreateDispenser env f name cfg0 fs =
     (let cfg = (if AutoDisk cfg0 = '''' then cfg0\<lparr> AutoDisk := StrategyElegantClose \<rparr> else cfg0)
      in if \<not> ValidPersistenceStrategies (AutoDisk cfg)
           then (Inl (ErrorNew (''invalid persistence strategy: '' @ AutoDisk cfg)), fs)
         else if AutoDisk cfg = StrategyMemory then lift_new Basic (NewDispenser env cfg, fs)
         else if AutoDisk cfg = StrategyPreBase then
           lift_new Seg
             (NewSegmentDispenser cfg 1000 (1 / 10) (Some (factory_persist f name cfg)) fs)
         else if AutoDisk cfg = StrategyPreCheckpoint then
           lift_new Opt
             (NewOptimizedSegmentDispenser cfg 1000 (1 / 10) 2000000000
                (Some (factory_persist f name cfg)) fs)
         else if AutoDisk cfg = StrategyElegantClose then lift_new Basic (NewDispenser env cfg, fs)
         else if AutoDisk cfg = StrategyPreClose then
           lift_new Opt
             (NewOptimizedSegmentDispenser cfg 1000 (1 / 10) 2000000000
                (Some (factory_persist f name cfg)) fs)
         else (Inl (ErrorNew (''unknown persistence strategy: '' @ AutoDisk cfg)), fs))"

section \<open>The server (server.go, handlers.go)\<close>

text \<open>
  Of \<open>protocol.Value\<close> the handlers build errors, integers, bulk strings and simple
  strings. The server is its state file, its registry and its factory.
\<close>

datatype Value = Error string | Integer int | BulkString string | SimpleString string

record Server =
  storage :: Storage
  dispensers :: "string \<rightharpoonup> NumberDispenser"
  factory :: DispenserFactory

subsection \<open>Parsing the fields of HSET\<close>

text \<open>
  \<open>strings.ToLower\<close>: a string all of whose bytes are below \<open>0x80\<close> has its letters
  \<open>A\<close> to \<open>Z\<close> replaced; any other string is mapped rune by rune through
  \<open>unicode.ToLower\<close>, which is the function \<open>unicodeLower\<close> of the environment. Then
  \<open>strconv.ParseInt(s, 10, 64)\<close> (which is also \<open>strconv.Atoi\<close> on a 64-bit platform) and
  \<open>strconv.ParseBool\<close>; \<open>None\<close> is a returned error.
\<close>

definition isASCII :: "string \<Rightarrow> bool" where
  "isASCII s = list_all (\<lambda>c. \<not> digit7 c) s"

definition ToLower :: "Env \<Rightarrow> string \<Rightarrow> string" where
  "ToLower env s =
     (if isASCII s then
        map (\<lambda>c. case map_of (zip ''ABCDEFGHIJKLMNOPQRSTUVWXYZ'' ''abcdefghijklmnopqrstuvwxyz'') c
                    of None \<Rightarrow> c | Some l \<Rightarrow> l) s
      else unicodeLower env s)"

fun parse_digits :: "string \<Rightarrow> nat \<Rightarrow> nat option" where
  "parse_digits [] acc = Some acc"
| "parse_digits (c # cs) acc =
     (case map_of (zip ''0123456789'' [0 ..< 10]) c of
        None \<Rightarrow> None
      | Some v \<Rightarrow> parse_digits cs (acc * 10 + v))"

definition ParseInt :: "string \<Rightarrow> int option" where
  "ParseInt s =
     (let neg = (s \<noteq> [] \<and> hd s = CHR ''-'');
          ds = (if s \<noteq> [] \<and> (hd s = CHR ''-'' \<or> hd s = CHR ''+'') then tl s else s)
      in if ds = [] then None
         else case parse_digits ds 0 of
                None \<Rightarrow> None
              | Some n \<Rightarrow>
                  (let v = (if neg then - int n else int n)
                   in if fits64 v then Some v else None))"

definition Atoi :: "string \<Rightarrow> int option" where
  "Atoi s = ParseInt s"

definition ParseBool :: "string \<Rightarrow> bool option" where
  "ParseBool s =
     (if s \<in> {''1'', ''t'', ''T'', ''TRUE'', ''true'', ''True''} then Some True
      else if s \<in> {''0'', ''f'', ''F'', ''FALSE'', ''false'', ''False''} then Some False
      else None)"

definition sq :: string where
  "sq = [CHR 0x27]"

definition Config0 :: Config where
  "Config0 = \<lparr> Type = 0, Length = 0, Starting = 0, Step = 0, MachineID = 0, DatacenterID = 0,
               IncrMode = '''', Charset = '''', UUIDFormat = '''', AutoDisk = '''',
               UniqueCheck = False, UniqueCacheSize = 0 \<rparr>"

text \<open>The loop over the field/value pairs; it carries \<open>cfg\<close> and \<open>hasType\<close>.\<close>

fun parseFields :: "Env \<Rightarrow> string list \<Rightarrow> Config \<times> bool \<Rightarrow> Value + Config \<times> bool" where
  "parseFields env (f # value # rest) (cfg, hasType) =
     (let field = ToLower env f
      in if field = ''type'' then
           (case Atoi value of
              None \<Rightarrow> Inl (Error ''ERR invalid type value'')
            | Some v \<Rightarrow> parseFields env rest (cfg\<lparr> Type := v \<rparr>, True))
         else if field = ''length'' then
           (case Atoi value of
              None \<Rightarrow> Inl (Error ''ERR invalid length value'')
            | Some v \<Rightarrow> parseFields env rest (cfg\<lparr> Length := v \<rparr>, hasType))
         else if field = ''starting'' then
           (case ParseInt value of
              None \<Rightarrow> Inl (Error ''ERR invalid starting value'')
            | Some v \<Rightarrow> parseFields env rest (cfg\<lparr> Starting := v \<rparr>, hasType))
         else if field = ''step'' then
           (case ParseInt value of
              None \<Rightarrow> Inl (Error ''ERR invalid step value'')
            | Some v \<Rightarrow> parseFields env rest (cfg\<lparr> Step := v \<rparr>, hasType))
         else if field = ''machine_id'' \<or> field = ''machine-id'' then
           (case ParseInt value of
              None \<Rightarrow> Inl (Error ''ERR invalid machine_id value'')
            | Some v \<Rightarrow> parseFields env rest (cfg\<lparr> MachineID := v \<rparr>, hasType))
         else if field = ''datacenter_id'' \<or> field = ''datacenter-id'' then
           (case ParseInt value of
              None \<Rightarrow> Inl (Error ''ERR invalid datacenter_id value'')
            | Some v \<Rightarrow> parseFields env rest (cfg\<lparr> DatacenterID := v \<rparr>, hasType))
         else if field = ''incr_mode'' \<or> field = ''incr-mode'' then
           (if ToLower env value \<noteq> IncrModeFixed \<and> ToLower env value \<noteq> IncrModeSequence
              then Inl (Error ''ERR invalid incr_mode value, valid values: fixed, sequence'')
            else parseFields env rest (cfg\<lparr> IncrMode := ToLower env value \<rparr>, hasType))
         else if field = ''charset'' then
           (if ToLower env value \<noteq> CharsetHex \<and> ToLower env value \<noteq> CharsetBase62
              then Inl (Error ''ERR invalid charset value, valid values: hex, base62'')
            else parseFields env rest (cfg\<lparr> Charset := ToLower env value \<rparr>, hasType))
         else if field = ''uuid_format'' \<or> field = ''uuid-format'' then
           (if ToLower env value \<noteq> UUIDFormatStandard \<and> ToLower env value \<noteq> UUIDFormatCompact
              then Inl (Error ''ERR invalid uuid_format value, valid values: standard, compact'')
            else parseFields env rest (cfg\<lparr> UUIDFormat := ToLower env value \<rparr>, hasType))
         else if field = ''unique_check'' \<or> field = ''unique-check'' then
           (case ParseBool value of
              None \<Rightarrow> Inl (Error ''ERR invalid unique_check value'')
            | Some b \<Rightarrow> parseFields env rest (cfg\<lparr> UniqueCheck := b \<rparr>, hasType))
         else if field = ''unique_cache_size'' \<or> field = ''unique-cache-size'' then
           (case Atoi value of
              None \<Rightarrow> Inl (Error ''ERR invalid unique_cache_size value'')
            | Some v \<Rightarrow> parseFields env rest (cfg\<lparr> UniqueCacheSize := v \<rparr>, hasType))
         else if field = ''auto_disk'' \<or> field = ''auto-disk'' then
           (if \<not> ValidPersistenceStrategies (ToLower env value)
              then Inl (Error (''ERR invalid auto_disk value '' @ sq @ value @ sq
                     @ '', valid values: memory, pre-base, pre-checkpoint, elegant_close, pre_close''))
            else parseFields env rest (cfg\<lparr> AutoDisk := ToLower env value \<rparr>, hasType))
         else Inl (Error (''ERR unknown field '' @ sq @ field @ sq)))"
| "parseFields env rest acc = Inr acc"

subsection \<open>HSET\<close>

text \<open>The names of the core parameters that a request would change, in the order tested.\<close>

definition changedFields :: "Config \<Rightarrow> Config \<Rightarrow> string list" where
  "changedFields cfg existingCfg =
     (if Length cfg \<noteq> 0 \<and> Length cfg \<noteq> Length existingCfg then [''length''] else [])
     @ (if Starting cfg \<noteq> 0 \<and> Starting cfg \<noteq> Starting existingCfg then [''starting''] else [])
     @ (if Step cfg \<noteq> 0 \<and> Step cfg \<noteq> Step existingCfg then [''step''] else [])
     @ (if IncrMode cfg \<noteq> '''' \<and> IncrMode cfg \<noteq> IncrMode existingCfg then [''incr_mode''] else [])
     @ (if Charset cfg \<noteq> '''' \<and> Charset cfg \<noteq> Charset existingCfg then [''charset''] else [])
     @ (if UUIDFormat cfg \<noteq> '''' \<and> UUIDFormat cfg \<noteq> UUIDFormat existingCfg
        then [''uuid_format''] else [])
     @ (if MachineID cfg \<noteq> 0 \<and> MachineID cfg \<noteq> MachineID existingCfg
        then [''machine_id''] else [])
     @ (if DatacenterID cfg \<noteq> 0 \<and> DatacenterID cfg \<noteq> DatacenterID existingCfg
        then [''datacenter_id''] else [])"

fun Join :: "string list \<Rightarrow> string \<Rightarrow> string" where
  "Join [] sep = []"
| "Join [x] sep = x"
| "Join (x # y # ys) sep = x @ sep @ Join (y # ys) sep"

definition handleHSet :: "Env \<Rightarrow> string list \<Rightarrow> Server \<Rightarrow> Value \<times> Server" where
  "handleHSet env args s =
     (if length args < 3 \<or> length args mod 2 = 0
        then (Error (''ERR wrong number of arguments for '' @ sq @ ''hset'' @ sq @ '' command''), s)
      else
        (let name = hd args; fields = tl args
         in case parseFields env fields (Config0, False) of
              Inl v \<Rightarrow> (v, s)
            | Inr (cfg0, hasType) \<Rightarrow>
                if \<not> hasType then (Error ''ERR type field is required'', s)
                else
                  (let cfg = (if AutoDisk cfg0 = ''''
                              then cfg0\<lparr> AutoDisk := StrategyElegantClose \<rparr> else cfg0);
                       done = Integer (int (length fields div 2))
                   in case dispensers s name of
                        Some existingDispenser \<Rightarrow>
                          (let existingCfg = GetConfig_nd existingDispenser
                           in if Type cfg \<noteq> Type existingCfg then
                                (Error (''ERR cannot change dispenser type (existing: ''
                                   @ sprintf_d (Type existingCfg) @ '', new: ''
                                   @ sprintf_d (Type cfg)
                                   @ ''). Use DEL first if you want to recreate''), s)
                              else if changedFields cfg existingCfg \<noteq> [] then
                                (Error (''ERR cannot change core parameters (''
                                   @ Join (changedFields cfg existingCfg) '', ''
                                   @ '') for existing dispenser. Only '' @ sq @ ''auto_disk'' @ sq
                                   @ '' can be modified. Use DEL first if you want to recreate''),
                                 s)
                              else if AutoDisk cfg \<noteq> AutoDisk existingCfg then
                                (let currentValue = GetCurrent_nd existingDispenser;
                                     newCfg = existingCfg\<lparr> AutoDisk := AutoDisk cfg \<rparr>
                                 in case CreateDispenser env (factory s) name newCfg (storage s) of
                                      (Inl err, fs1) \<Rightarrow>
                                        (Error (''ERR '' @ Error_msg err), s\<lparr> storage := fs1 \<rparr>)
                                    | (Inr d0, fs1) \<Rightarrow>
                                        (let d = (if Type newCfg = TypeNumericIncremental
                                                  then SetCurrent_nd d0 currentValue else d0)
                                         in case Shutdown_nd existingDispenser fs1 of
                                              (Some err, old, fs2) \<Rightarrow>
                                                (Error (''ERR failed to shutdown old dispenser: ''
                                                   @ Error_msg err),
                                                 s\<lparr> storage := fs2,
                                                    dispensers := (dispensers s)(name \<mapsto> old) \<rparr>)
                                            | (None, old, fs2) \<Rightarrow>
                                                (case Save name newCfg (GetCurrent_nd d) fs2 of
                                                   (Some err, fs3) \<Rightarrow>
                                                     (Error (''ERR failed to save: ''
                                                        @ Error_msg err),
                                                      s\<lparr> storage := fs3,
                                                         dispensers := (dispensers s)(name \<mapsto> d) \<rparr>)
                                                 | (None, fs3) \<Rightarrow>
                                                     (done,
                                                      s\<lparr> storage := fs3,
                                                         dispensers :=
                                                           (dispensers s)(name \<mapsto> d) \<rparr>))))
                              else (done, s))
                      | None \<Rightarrow>
                          (case CreateDispenser env (factory s) name cfg (storage s) of
                             (Inl err, fs1) \<Rightarrow>
                               (Error (''ERR '' @ Error_msg err), s\<lparr> storage := fs1 \<rparr>)
                           | (Inr d, fs1) \<Rightarrow>
                               (case Save name cfg (GetCurrent_nd d) fs1 of
                                  (Some err, fs2) \<Rightarrow>
                                    (Error (''ERR failed to save: '' @ Error_msg err),
                                     s\<lparr> storage := fs2,
                                        dispensers := (dispensers s)(name \<mapsto> d) \<rparr>)
                                | (None, fs2) \<Rightarrow>
                                    (done,
                                     s\<lparr> storage := fs2,
                                        dispensers := (dispensers s)(name \<mapsto> d) \<rparr>))))))"

subsection \<open>GET\<close>

definition handleGet :: "Env \<Rightarrow> string list \<Rightarrow> Server \<Rightarrow> (Value \<times> Server) option" where
  "handleGet env args s =
     (if length args \<noteq> 1
        then Some (Error (''ERR wrong number of arguments for '' @ sq @ ''get'' @ sq
                          @ '' command''), s)
      else
        (let name = hd args
         in case dispensers s name of
              None \<Rightarrow> Some (Error ''ERR dispenser not found'', s)
            | Some d \<Rightarrow>
                (case Next_nd env d (storage s) of
                   None \<Rightarrow> None
                 | Some (Inl err, d', fs1) \<Rightarrow>
                     Some (Error (''ERR '' @ Error_msg err),
                           s\<lparr> storage := fs1, dispensers := (dispensers s)(name \<mapsto> d') \<rparr>)
                 | Some (Inr number, d', fs1) \<Rightarrow>
                     (let s1 = s\<lparr> storage := fs1, dispensers := (dispensers s)(name \<mapsto> d') \<rparr>;
                          cfg = GetConfig_nd d'
                      in if AutoDisk cfg = StrategyElegantClose
                            \<and> Type cfg = TypeNumericIncremental
                         then (case Save name cfg (GetCurrent_nd d') fs1 of
                                 (err, fs2) \<Rightarrow> Some (BulkString number, s1\<lparr> storage := fs2 \<rparr>))
                         else Some (BulkString number, s1)))))"

subsection \<open>Start-up and the periodic save\<close>

text \<open>
  \<open>loadDispensers\<close> and \<open>persistAll\<close> range over a Go map; the list \<open>names\<close> is the order
  in which the keys are visited.
\<close>

fun loadDispensers_loop ::
  "Env \<Rightarrow> (string \<rightharpoonup> DispenserData) \<Rightarrow> string list \<Rightarrow> Server \<Rightarrow> Server" where
  "loadDispensers_loop env all [] s = s"
| "loadDispensers_loop env all (name # names) s =
     (case all name of
        None \<Rightarrow> loadDispensers_loop env all names s
      | Some dat \<Rightarrow>
          (case CreateDispenser env (factory s) name (data_Config dat) (storage s) of
             (Inl err, fs1) \<Rightarrow> loadDispensers_loop env all names (s\<lparr> storage := fs1 \<rparr>)
           | (Inr d, fs1) \<Rightarrow>
               loadDispensers_loop env all names
                 (s\<lparr> storage := fs1,
                    dispensers := (dispensers s)(name \<mapsto> SetCurrent_nd d (data_Current dat)) \<rparr>)))"

definition loadDispensers :: "Env \<Rightarrow> string list \<Rightarrow> Server \<Rightarrow> Server" where
  "loadDispensers env names s = loadDispensers_loop env (ListAll (storage s)) names s"

definition NewFileStorage :: "(string \<rightharpoonup> DispenserData) \<Rightarrow> (nat \<Rightarrow> bool) \<Rightarrow> bool \<Rightarrow> Storage" where
  "NewFileStorage file fails auto =
     \<lparr> data = file, autoSave = auto, dirty = False, disk = file, writeFails = fails,
       writes = 0 \<rparr>"

definition NewServer :: "Env \<Rightarrow> string list \<Rightarrow> (string \<rightharpoonup> DispenserData) \<Rightarrow> (nat \<Rightarrow> bool) \<Rightarrow> Server" where
  "NewServer env names file fails =
     loadDispensers env names
       \<lparr> storage = NewFileStorage file fails True, dispensers = Map.empty,
         factory = \<lparr> persistFunc = Some Save \<rparr> \<rparr>"

fun persistAll_loop :: "string list \<Rightarrow> Server \<Rightarrow> Storage \<Rightarrow> Storage" where
  "persistAll_loop [] s fs = fs"
| "persistAll_loop (name # names) s fs =
     (case dispensers s name of
        None \<Rightarrow> persistAll_loop names s fs
      | Some d \<Rightarrow>
          (case Save name (GetConfig_nd d) (GetCurrent_nd d) fs of
             (err, fs1) \<Rightarrow> persistAll_loop names s fs1))"

definition persistAll :: "string list \<Rightarrow> Server \<Rightarrow> error option \<times> Server" where
  "persistAll names s =
     (case Flush (persistAll_loop names s (storage s)) of
        (err, fs) \<Rightarrow> (err, s\<lparr> storage := fs \<rparr>))"

section \<open>Concrete inputs\<close>

text \<open>
  An environment without clock readings and without entropy whose pseudo-random sequence
  counts 0, 1, 2, ...; and the dispenser that \<open>hset d type 1 length 2\<close> creates in it.
\<close>

definition env_count :: Env where
  "env_count = \<lparr> clock = [], cryptoRead = (\<lambda>n. Inl ErrIO), newRng = (\<lambda>k. int k),
                  unicodeLower = (\<lambda>s. s) \<rparr>"

definition cfg_random2 :: Config where
  "cfg_random2 = Config0\<lparr> Type := 1, Length := 2, AutoDisk := ''elegant_close'' \<rparr>"

definition d_random2 :: Dispenser where
  "d_random2 =
     \<lparr> config = cfg_random2\<lparr> UniqueCheck := True \<rparr>, current = 0, rng = (\<lambda>k. int k),
       rngCalls = 0, segmentStart = 0, segmentEnd = 0, used = {}, seqCounter = 0,
       lastTimestamp = 0, snowflakeEpoch = 1288834974657, totalGenerated = 0 \<rparr>"

text \<open>
  The snowflake dispenser that \<open>hset e type 4 machine_id 0 datacenter_id 0\<close> creates, and
  an environment whose clock reads one millisecond after the snowflake epoch.
\<close>

definition cfg_snow0 :: Config where
  "cfg_snow0 = Config0\<lparr> Type := 4, MachineID := 0, DatacenterID := 0,
                         AutoDisk := ''elegant_close'' \<rparr>"

definition env_tick :: Env where
  "env_tick = env_count\<lparr> clock := [1288834974658] \<rparr>"

definition d_snow0 :: Dispenser where
  "d_snow0 =
     \<lparr> config = cfg_snow0\<lparr> MachineID := 1 \<rparr>, current = 0, rng = (\<lambda>k. int k),
       rngCalls = 0, segmentStart = 0, segmentEnd = 0, used = {}, seqCounter = 0,
       lastTimestamp = 0, snowflakeEpoch = 1288834974657, totalGenerated = 0 \<rparr>"

text \<open>
  A server as the handler tests set it up (empty registry, state file written on every
  save, \<open>fails\<close> telling which write attempts fail), and a number of consecutive GET
  requests for one name.
\<close>

definition srv_empty :: "(nat \<Rightarrow> bool) \<Rightarrow> Server" where
  "srv_empty fails =
     \<lparr> storage = NewFileStorage Map.empty fails False, dispensers = Map.empty,
       factory = \<lparr> persistFunc = Some Save \<rparr> \<rparr>"

fun gets :: "Env \<Rightarrow> nat \<Rightarrow> string \<Rightarrow> Server \<Rightarrow> Value list \<times> Server" where
  "gets env 0 name s = ([], s)"
| "gets env (Suc n) name s =
     (case handleGet env [name] s of
        None \<Rightarrow> ([], s)
      | Some (v, s1) \<Rightarrow> (case gets env n name s1 of (vs, s2) \<Rightarrow> (v # vs, s2)))"

text \<open>
  The reply of GET to a result of \<open>Next\<close>, and the identifiers among the replies of a
  sequence of requests.
\<close>

fun reply :: "error + string \<Rightarrow> Value" where
  "reply (Inl err) = Error (''ERR '' @ Error_msg err)"
| "reply (Inr number) = BulkString number"

fun bulks :: "Value list \<Rightarrow> string list" where
  "bulks [] = []"
| "bulks (BulkString x # vs) = x # bulks vs"
| "bulks (v # vs) = bulks vs"



text \<open>
  \<open>hset b type 2 incr_mode sequence starting 100\<close> (so \<open>elegant_close\<close>) on a server whose
  state file can be written once and never again.
\<close>

definition srv_b :: Server where
  "srv_b = snd (handleHSet env_count
     [''b'', ''type'', ''2'', ''incr_mode'', ''sequence'', ''starting'', ''100'']
     (srv_empty (\<lambda>k. k \<noteq> 0)))"

text \<open>
  A restart: the state file holds the dispenser \<open>c\<close> (type 2, sequence, starting 0, step 1,
  \<open>pre-checkpoint\<close>) with the saved position 2000.
\<close>

definition cfg_c :: Config where
  "cfg_c = Config0\<lparr> Type := 2, IncrMode := ''sequence'', Step := 1,
                     AutoDisk := ''pre-checkpoint'' \<rparr>"

definition srv_c :: Server where
  "srv_c = NewServer env_count [''c'']
             [''c'' \<mapsto> \<lparr> data_Config = cfg_c, data_Current = 2000 \<rparr>] (\<lambda>k. False)"

text \<open>The same restart with the basic dispenser: the entry is under \<open>elegant_close\<close>.\<close>

definition srv_c_basic :: Server where
  "srv_c_basic = NewServer env_count [''c'']
             [''c'' \<mapsto> \<lparr> data_Config = cfg_c\<lparr> AutoDisk := ''elegant_close'' \<rparr>,
                          data_Current = 2000 \<rparr>] (\<lambda>k. False)"

text \<open>A started prefetch goroutine of the dispenser registered under \<open>name\<close> runs.\<close>

definition runPreload :: "string \<Rightarrow> Server \<Rightarrow> Server" where
  "runPreload name s =
     (case dispensers s name of
        None \<Rightarrow> s
      | Some d \<Rightarrow>
          (case preload_nd d (storage s) of
             (d', fs) \<Rightarrow> s\<lparr> storage := fs, dispensers := (dispensers s)(name \<mapsto> d') \<rparr>))"

text \<open>
  Fixed width of length 1: a dispenser starting at the cap 9 under \<open>memory\<close>, and one
  starting at 0 under \<open>memory\<close> and under \<open>pre_close\<close>.
\<close>

definition srv_d9 :: Server where
  "srv_d9 = snd (handleHSet env_count
     [''d'', ''type'', ''2'', ''incr_mode'', ''fixed'', ''length'', ''1'', ''starting'', ''9'',
      ''auto_disk'', ''memory''] (srv_empty (\<lambda>k. False)))"

definition srv_m0 :: Server where
  "srv_m0 = snd (handleHSet env_count
     [''f'', ''type'', ''2'', ''incr_mode'', ''fixed'', ''length'', ''1'', ''auto_disk'', ''memory'']
     (srv_empty (\<lambda>k. False)))"

definition srv_f0 :: Server where
  "srv_f0 = snd (handleHSet env_count
     [''f'', ''type'', ''2'', ''incr_mode'', ''fixed'', ''length'', ''1'', ''auto_disk'',
      ''pre_close''] (srv_empty (\<lambda>k. False)))"

text \<open>
  One \<open>Next\<close> of a segment dispenser as a step on the pair of the dispenser and the state
  behind its callback; \<open>hset p type 2 incr_mode fixed length 2 auto_disk pre-base\<close> on
  the empty server, followed by three \<open>get p\<close>; and the configuration and the creation
  of that dispenser.
\<close>

definition Next_sd_step ::
  "'h SegmentDispenser \<times> 'h \<Rightarrow> (error + string) \<times> ('h SegmentDispenser \<times> 'h)" where
  "Next_sd_step p = (case Next_sd (fst p) (snd p) of (r, sd', h') \<Rightarrow> (r, (sd', h')))"

definition srv_p0 :: Server where
  "srv_p0 = snd (handleHSet env_count
     [''p'', ''type'', ''2'', ''incr_mode'', ''fixed'', ''length'', ''2'', ''auto_disk'',
      ''pre-base''] (srv_empty (\<lambda>k. False)))"

definition srv_p3 :: Server where
  "srv_p3 = snd (gets env_count 3 ''p'' srv_p0)"

definition cfg_p :: Config where
  "cfg_p = Config0\<lparr> Type := 2, Length := 2, IncrMode := ''fixed'', AutoDisk := ''pre-base'' \<rparr>"

definition new_p :: "(error + Storage SegmentDispenser) \<times> Storage" where
  "new_p = NewSegmentDispenser cfg_p 1000 (1 / 10)
             (Some (factory_persist \<lparr> persistFunc = Some Save \<rparr> ''p'' cfg_p))
             (storage (srv_empty (\<lambda>k. False)))"

text \<open>
  Recording callbacks that always succeed, and that succeed only at the first call; a
  fixed-width configuration of length 2 with step 60; and a sequence configuration starting
  at 5 with step 7, with runs of these.
\<close>

definition rec_ok :: Recorder where
  "rec_ok = \<lparr> answers = (\<lambda>k. None), log = [] \<rparr>"

definition rec_first :: Recorder where
  "rec_first = \<lparr> answers = (\<lambda>k. if k = 0 then None else Some ErrIO), log = [] \<rparr>"

definition cfg_s60 :: Config where
  "cfg_s60 = Config0\<lparr> Type := 2, IncrMode := ''fixed'', Length := 2, Step := 60,
                       AutoDisk := ''pre_close'' \<rparr>"

definition run_s60_small ::
  "((error + string) \<times> Recorder) list \<times> Recorder OptimizedSegmentDispenser \<times> Recorder" where
  "run_s60_small =
     (case NewOptimizedSegmentDispenser cfg_s60 5 (1 / 10) 0 (Some recordPersist) rec_ok of
        (r, h) \<Rightarrow> run_osd [EvNext, EvNext] (projr r) h)"

definition run_s60 ::
  "((error + string) \<times> Recorder) list \<times> Recorder OptimizedSegmentDispenser \<times> Recorder" where
  "run_s60 =
     (case NewOptimizedSegmentDispenser cfg_s60 1000 (1 / 10) 0 (Some recordPersist) rec_first of
        (r, h) \<Rightarrow> run_osd [EvNext, EvPreload, EvNext] (projr r) h)"

definition cfg_s7 :: Config where
  "cfg_s7 = Config0\<lparr> Type := 2, IncrMode := ''sequence'', Starting := 5, Step := 7,
                      AutoDisk := ''pre-checkpoint'' \<rparr>"

definition new_s7 :: "(error + Recorder OptimizedSegmentDispenser) \<times> Recorder" where
  "new_s7 = NewOptimizedSegmentDispenser cfg_s7 3 (1 / 2) 2000 (Some recordPersist) rec_ok"

definition events_s7 :: "event list" where
  "events_s7 = [EvNext, EvNext, EvPreload, EvCheckpoint, EvNext, EvNext]"

definition run_s7 ::
  "((error + string) \<times> Recorder) list \<times> Recorder OptimizedSegmentDispenser \<times> Recorder" where
  "run_s7 = run_osd events_s7 (projr (fst new_s7)) (snd new_s7)"

text \<open>
  The basic segment dispenser on the recording callback: an increment from zero starting
  at 5 with step 7, the fixed-width configuration of length 2 with step 60, and a random
  kind of length 4. And a run of the optimized dispenser that begins with \<open>SetCurrent\<close>.
\<close>

definition cfg_z7 :: Config where
  "cfg_z7 = Config0\<lparr> Type := 3, Starting := 5, Step := 7, AutoDisk := ''pre-base'' \<rparr>"

definition new_z7 :: "(error + Recorder SegmentDispenser) \<times> Recorder" where
  "new_z7 = NewSegmentDispenser cfg_z7 3 (1 / 2) (Some recordPersist) rec_ok"

definition run_z7 ::
  "((error + string) \<times> Recorder) list \<times> Recorder SegmentDispenser \<times> Recorder" where
  "run_z7 = run_sd events_s7 (projr (fst new_z7)) (snd new_z7)"

definition run_p60 ::
  "((error + string) \<times> Recorder) list \<times> Recorder SegmentDispenser \<times> Recorder" where
  "run_p60 =
     (case NewSegmentDispenser (cfg_s60\<lparr> AutoDisk := ''pre-base'' \<rparr>) 5 (1 / 10)
             (Some recordPersist) rec_ok of
        (r, h) \<Rightarrow> run_sd [EvNext, EvNext] (projr r) h)"

definition run_r4 ::
  "((error + string) \<times> Recorder) list \<times> Recorder SegmentDispenser \<times> Recorder" where
  "run_r4 =
     (case NewSegmentDispenser (Config0\<lparr> Type := 1, Length := 4, AutoDisk := ''pre-base'' \<rparr>)
             1000 (1 / 10) (Some recordPersist) rec_ok of
        (r, h) \<Rightarrow> run_sd [EvNext] (projr r) h)"

text \<open>
  A sequence dispenser that starts three below \<open>2^63\<close>, with segments of two numbers.
\<close>

definition run_top ::
  "((error + string) \<times> Recorder) list \<times> Recorder OptimizedSegmentDispenser \<times> Recorder" where
  "run_top =
     (case NewOptimizedSegmentDispenser
             (Config0\<lparr> Type := 2, IncrMode := ''sequence'', Starting := 9223372036854775805,
                         AutoDisk := ''pre_close'' \<rparr>)
             2 (1 / 10) 0 (Some recordPersist) rec_ok of
        (r, h) \<Rightarrow> run_osd [EvNext, EvNext, EvNext] (projr r) h)"

definition run_s7_set ::
  "((error + string) \<times> Recorder) list \<times> Recorder OptimizedSegmentDispenser \<times> Recorder" where
  "run_s7_set = run_osd [EvSetCurrent 20, EvNext] (projr (fst new_s7)) (snd new_s7)"

text \<open>
  Numeric-random dispensers on the server: \<open>hset q type 1 length 1\<close> (so
  \<open>elegant_close\<close>), two \<open>get q\<close>, then \<open>hset q type 1 length 1 auto_disk memory\<close>; and
  \<open>hset r type 1 length 2 auto_disk pre-base\<close>.
\<close>

definition srv_q0 :: Server where
  "srv_q0 = snd (handleHSet env_count [''q'', ''type'', ''1'', ''length'', ''1'']
                   (srv_empty (\<lambda>k. False)))"

definition srv_q2 :: Server where
  "srv_q2 = snd (gets env_count 2 ''q'' srv_q0)"

definition srv_q3 :: Server where
  "srv_q3 = snd (handleHSet env_count
                   [''q'', ''type'', ''1'', ''length'', ''1'', ''auto_disk'', ''memory'']
                   srv_q2)"

definition srv_r0 :: Server where
  "srv_r0 = snd (handleHSet env_count
                   [''r'', ''type'', ''1'', ''length'', ''2'', ''auto_disk'', ''pre-base'']
                   (srv_empty (\<lambda>k. False)))"

text \<open>
  \<open>hset h type 2 incr_mode sequence auto_disk memory\<close> on the empty server; the request
  \<open>hset h type 2 incr_mode sequence auto_disk pre_close\<close>, which changes the strategy only;
  and the registry entry of \<open>h\<close> with its position and its counter moved on by \<open>n\<close>.
\<close>

definition srv_h0 :: Server where
  "srv_h0 = snd (handleHSet env_count
                   [''h'', ''type'', ''2'', ''incr_mode'', ''sequence'', ''auto_disk'', ''memory'']
                   (srv_empty (\<lambda>k. False)))"

definition to_pre_close :: "string list" where
  "to_pre_close =
     [''h'', ''type'', ''2'', ''incr_mode'', ''sequence'', ''auto_disk'', ''pre_close'']"

definition srv_h_at :: "int \<Rightarrow> Server" where
  "srv_h_at n =
     (case dispensers srv_h0 ''h'' of
        Some (Basic d) \<Rightarrow>
          srv_h0\<lparr> dispensers :=
            (dispensers srv_h0)(''h'' \<mapsto>
               Basic (d\<lparr> current := current d + n,
                         totalGenerated := totalGenerated d + n \<rparr>)) \<rparr>
      | _ \<Rightarrow> srv_h0)"

lemmas const_defs =
  TypeNumericRandom_def TypeNumericIncremental_def TypeAlphanumericRandom_def
  TypeSnowflake_def TypeUUID_def IncrModeFixed_def IncrModeSequence_def CharsetHex_def
  CharsetBase62_def UUIDFormatStandard_def UUIDFormatCompact_def StrategyMemory_def
  StrategyPreBase_def StrategyPreCheckpoint_def StrategyElegantClose_def StrategyPreClose_def
section \<open>Helper lemmas\<close>

lemma i64_id: "fits64 x \<Longrightarrow> i64 x = x"
  by (simp add: i64_def fits64_def)

lemma fits64_nonneg: "0 \<le> x \<Longrightarrow> x < 2 ^ 63 \<Longrightarrow> fits64 x"
  by (simp add: fits64_def)

lemma pow10_loop: "k \<le> 18 \<Longrightarrow> ((\<lambda>result. i64 (result * 10)) ^^ k) 1 = 10 ^ k"
proof (induction k)
  case 0 then show ?case by simp
next
  case (Suc k)
  have "(10::int) ^ Suc k \<le> 10 ^ 18" using Suc.prems by (intro power_increasing) auto
  also have "\<dots> < 2 ^ 63" by simp
  finally have hi: "(10::int) ^ k * 10 < 2 ^ 63" by (simp add: mult.commute)
  have "- (2 ^ 63) \<le> (0::int)" by simp
  also have "\<dots> \<le> 10 ^ k * 10" by simp
  finally have "fits64 (10 ^ k * 10)" using hi unfolding fits64_def by blast
  with Suc show ?case by (simp add: i64_id)
qed

lemma pow10_eq: "0 \<le> n \<Longrightarrow> n \<le> 18 \<Longrightarrow> pow10 n = 10 ^ nat n"
proof -
  assume a: "0 \<le> n" "n \<le> 18"
  then have "nat n \<le> 18" by simp
  from pow10_loop [OF this] a show ?thesis unfolding pow10_def by (cases "n = 0") simp_all
qed

lemma retry_unique_step:
  assumes "\<not> i64 (mx - mn + 1) \<le> 0"
  shows "retry_unique (Suc k) mn mx d =
     (let d1 = d\<lparr> rngCalls := rngCalls d + 1 \<rparr>;
          numStr = sprintf_0d (Length (config d))
                     (i64 (mn + rng d (rngCalls d) mod i64 (mx - mn + 1)))
      in if numStr \<notin> used d then
           (Inr numStr, d1\<lparr> used := insert numStr (used d),
                            totalGenerated := i64 (totalGenerated d + 1) \<rparr>)
         else retry_unique k mn mx d1)"
  using assms by (simp add: Int63n_def Let_def)

lemma retry_unique_panic:
  assumes "i64 (mx - mn + 1) \<le> 0"
  shows "retry_unique (Suc k) mn mx d = (Inl (Panic ''invalid argument to Int63n''), d)"
  using assms by (simp add: Int63n_def)

lemma retry_unique_Inr:
  "retry_unique k mn mx d = (Inr s, d') \<Longrightarrow>
     s \<notin> used d \<and> used d' = insert s (used d) \<and> config d' = config d"
proof (induction k arbitrary: d)
  case 0
  then show ?case by simp
next
  case (Suc k)
  show ?case
  proof (cases "i64 (mx - mn + 1) \<le> 0")
    case True
    with Suc.prems retry_unique_panic [OF True, of k d] show ?thesis by (simp del: retry_unique.simps)
  next
    case False
    let ?s = "sprintf_0d (Length (config d)) (i64 (mn + rng d (rngCalls d) mod i64 (mx - mn + 1)))"
    show ?thesis
    proof (cases "?s \<in> used d")
      case True
      with Suc.prems retry_unique_step [OF False, of k d]
      have "retry_unique k mn mx (d\<lparr> rngCalls := rngCalls d + 1 \<rparr>) = (Inr s, d')"
        by (simp add: Let_def del: retry_unique.simps)
      from Suc.IH [OF this] show ?thesis by simp
    next
      case notin: False
      with Suc.prems retry_unique_step [OF False, of k d] show ?thesis
        by (auto simp add: Let_def simp del: retry_unique.simps)
    qed
  qed
qed

lemma retry_unique_Inl:
  "retry_unique k mn mx d = (Inl e, d') \<Longrightarrow>
     used d' = used d \<and> config d' = config d \<and> e \<noteq> ErrNumberExhausted"
proof (induction k arbitrary: d)
  case 0
  then show ?case by auto
next
  case (Suc k)
  show ?case
  proof (cases "i64 (mx - mn + 1) \<le> 0")
    case True
    with Suc.prems retry_unique_panic [OF True, of k d] show ?thesis by (auto simp del: retry_unique.simps)
  next
    case False
    let ?s = "sprintf_0d (Length (config d)) (i64 (mn + rng d (rngCalls d) mod i64 (mx - mn + 1)))"
    show ?thesis
    proof (cases "?s \<in> used d")
      case True
      with Suc.prems retry_unique_step [OF False, of k d]
      have "retry_unique k mn mx (d\<lparr> rngCalls := rngCalls d + 1 \<rparr>) = (Inl e, d')"
        by (simp add: Let_def del: retry_unique.simps)
      from Suc.IH [OF this] show ?thesis by simp
    next
      case notin: False
      with Suc.prems retry_unique_step [OF False, of k d] show ?thesis
        by (auto simp add: Let_def simp del: retry_unique.simps)
    qed
  qed
qed

declare retry_unique.simps [simp del]

lemma nextNumericRandom_Inr:
  "nextNumericRandom d = (Inr s, d') \<Longrightarrow>
     s \<notin> used d \<and> used d' = insert s (used d) \<and> config d' = config d"
  unfolding nextNumericRandom_def Let_def
  by (auto split: if_splits dest: retry_unique_Inr)

lemma nextNumericRandom_Inl:
  "nextNumericRandom d = (Inl e, d') \<Longrightarrow> used d' = used d \<and> config d' = config d"
  unfolding nextNumericRandom_def Let_def
  by (auto split: if_splits dest: retry_unique_Inl)

lemma calls_random:
  "calls nextNumericRandom n d = (rs, d') \<Longrightarrow>
     distinct (oks rs) \<and> set (oks rs) \<inter> used d = {} \<and> used d' = used d \<union> set (oks rs)
     \<and> config d' = config d"
proof (induction n arbitrary: d rs d')
  case 0
  then show ?case by simp
next
  case (Suc n)
  obtain r d1 where r: "nextNumericRandom d = (r, d1)" by (cases "nextNumericRandom d")
  obtain rs1 d2 where c: "calls nextNumericRandom n d1 = (rs1, d2)"
    by (cases "calls nextNumericRandom n d1")
  from Suc.prems r c have eq: "rs = r # rs1" "d' = d2" by auto
  note ih = Suc.IH [OF c]
  show ?case
  proof (cases r)
    case (Inl e)
    with r have "used d1 = used d \<and> config d1 = config d" by (auto dest: nextNumericRandom_Inl)
    with ih eq Inl show ?thesis by auto
  next
    case (Inr s)
    with r have "s \<notin> used d \<and> used d1 = insert s (used d) \<and> config d1 = config d"
      by (auto dest: nextNumericRandom_Inr)
    with ih eq Inr show ?thesis by auto
  qed
qed

lemma pow10_fits: "n \<le> 18 \<Longrightarrow> (10::int) ^ n < 2 ^ 63"
proof -
  assume "n \<le> 18"
  then have "(10::int) ^ n \<le> 10 ^ 18" by (intro power_increasing) auto
  also have "\<dots> < 2 ^ 63" by simp
  finally show ?thesis .
qed

lemma fits64_gap:
  "0 < b \<Longrightarrow> b < a \<Longrightarrow> a < 2 ^ 63 \<Longrightarrow> fits64 (a - 1) \<and> fits64 (a - 1 - b + 1)"
  by (simp add: fits64_def)

lemma random_space:
  assumes "1 \<le> L" "L \<le> 18"
  shows "i64 (i64 (pow10 L - 1) - pow10 (i64 (L - 1)) + 1) = 10 ^ nat L - 10 ^ nat (L - 1)"
    and "(0::int) < 10 ^ nat L - 10 ^ nat (L - 1)"
proof -
  have L1: "i64 (L - 1) = L - 1" using assms by (intro i64_id) (simp add: fits64_def)
  have pL: "pow10 L = 10 ^ nat L" using assms by (intro pow10_eq) auto
  have pL1: "pow10 (L - 1) = 10 ^ nat (L - 1)" using assms by (intro pow10_eq) auto
  have hi: "(10::int) ^ nat L < 2 ^ 63" using assms by (intro pow10_fits) auto
  have lt: "(10::int) ^ nat (L - 1) < 10 ^ nat L"
    using assms by (intro power_strict_increasing) auto
  have pos: "(0::int) < 10 ^ nat (L - 1)" by simp
  note f = fits64_gap [OF pos lt hi]
  have a: "i64 (10 ^ nat L - 1) = 10 ^ nat L - 1"
    using f by (intro i64_id) blast
  have b: "i64 (10 ^ nat L - 1 - 10 ^ nat (L - 1) + 1) = 10 ^ nat L - 10 ^ nat (L - 1)"
  proof -
    have "fits64 (10 ^ nat L - 1 - 10 ^ nat (L - 1) + 1)"
      using f by blast
    then show ?thesis by (simp add: i64_id)
  qed
  show "i64 (i64 (pow10 L - 1) - pow10 (i64 (L - 1)) + 1) = 10 ^ nat L - 10 ^ nat (L - 1)"
    by (simp only: L1 pL pL1 a b)
  show "(0::int) < 10 ^ nat L - 10 ^ nat (L - 1)" using lt by simp
qed

lemma usage_exceeds_iff: "0 < t \<Longrightarrow> usage_exceeds c t \<longleftrightarrow> 4 * t < 5 * c"
  by (simp add: usage_exceeds_def field_simps) linarith

lemma exhausted_iff:
  assumes "1 \<le> Length (config d)" "Length (config d) \<le> 18"
  shows "fst (nextNumericRandom d) = Inl ErrNumberExhausted \<longleftrightarrow>
         4 * (10 ^ nat (Length (config d)) - 10 ^ nat (Length (config d) - 1))
           < 5 * int (card (used d))"
proof -
  note sp = random_space [OF assms]
  show ?thesis
  proof (cases "usage_exceeds (int (card (used d))) (10 ^ nat (Length (config d)) - 10 ^ nat (Length (config d) - 1))")
    case True
    then show ?thesis
      using sp by (simp add: nextNumericRandom_def Let_def usage_exceeds_iff)
  next
    case False
    obtain r d' where r: "retry_unique 100 (pow10 (i64 (Length (config d) - 1))) (i64 (pow10 (Length (config d)) - 1)) d = (r, d')"
      by (cases "retry_unique 100 (pow10 (i64 (Length (config d) - 1))) (i64 (pow10 (Length (config d)) - 1)) d")
    have "r \<noteq> Inl ErrNumberExhausted"
      using retry_unique_Inl [of 100 _ _ d _ d'] r by (cases r) auto
    with False r show ?thesis
      using sp by (simp add: nextNumericRandom_def Let_def usage_exceeds_iff)
  qed
qed

lemma oks_map_Inr: "oks (map (Inr \<circ> f) xs) = map f xs"
  by (induction xs) simp_all

lemma calls_length: "calls f n s = (rs, s') \<Longrightarrow> length rs = n"
  by (induction n arbitrary: s rs s') (auto split: prod.splits)

lemma calls_random_card:
  assumes "calls nextNumericRandom n d = (rs, d')" "finite (used d)"
  shows "card (used d') = card (used d) + length (oks rs)"
proof -
  from calls_random [OF assms(1)]
  have d: "distinct (oks rs)" and i: "set (oks rs) \<inter> used d = {}"
    and u: "used d' = used d \<union> set (oks rs)" by auto
  have "card (used d \<union> set (oks rs)) = card (used d) + card (set (oks rs))"
    using assms(2) i by (intro card_Un_disjoint) auto
  with d u show ?thesis by (simp add: distinct_card)
qed

lemma new_random2: "NewDispenser env_count cfg_random2 = Inr d_random2"
  by (simp add: NewDispenser_def validateConfig_def cfg_random2_def Config0_def d_random2_def
        env_count_def const_defs)

lemma run_random2:
  "fst (calls nextNumericRandom 73 d_random2) = map (Inr \<circ> sprintf_d) [10..82]"
  by code_simp

section \<open>Consecutive GET requests on a basic dispenser\<close>

lemma handleGet_basic:
  assumes "dispensers s name = Some (Basic d)" and "Next env d = Some (r, d1)"
    and "\<not> (AutoDisk (config d1) = StrategyElegantClose
            \<and> Type (config d1) = TypeNumericIncremental)"
  shows "handleGet env [name] s
         = Some (reply r, s\<lparr> dispensers := (dispensers s)(name \<mapsto> Basic d1) \<rparr>)"
  using assms
  by (cases r)
     (auto simp: handleGet_def Next_nd_def GetConfig_nd_def GetConfig_def Let_def)

lemma gets_basic:
  assumes "dispensers s name = Some (Basic d)" and "config d = cfg"
    and nx: "\<And>d. config d = cfg \<Longrightarrow> Next env d = Some (f d)"
    and keep: "\<And>d r d'. config d = cfg \<Longrightarrow> f d = (r, d') \<Longrightarrow> config d' = cfg"
    and nosave: "\<not> (AutoDisk cfg = StrategyElegantClose \<and> Type cfg = TypeNumericIncremental)"
  shows "gets env n name s
         = (map reply (fst (calls f n d)),
            s\<lparr> dispensers := (dispensers s)(name \<mapsto> Basic (snd (calls f n d))) \<rparr>)"
  using assms(1,2)
proof (induction n arbitrary: s d)
  case 0
  have "(dispensers s)(name \<mapsto> Basic d) = dispensers s"
    using 0(1) by (rule map_upd_triv)
  then show ?case by simp
next
  case (Suc n)
  obtain r d1 where f: "f d = (r, d1)" by (cases "f d")
  have c1: "config d1 = cfg" using keep [OF Suc.prems(2) f] .
  let ?s1 = "s\<lparr> dispensers := (dispensers s)(name \<mapsto> Basic d1) \<rparr>"
  have g: "handleGet env [name] s = Some (reply r, ?s1)"
  proof (rule handleGet_basic [OF Suc.prems(1)])
    show "Next env d = Some (r, d1)" using nx [OF Suc.prems(2)] f by simp
    show "\<not> (AutoDisk (config d1) = StrategyElegantClose
             \<and> Type (config d1) = TypeNumericIncremental)"
      using nosave c1 by simp
  qed
  have d1: "dispensers ?s1 name = Some (Basic d1)" by simp
  note ih = Suc.IH [OF d1 c1]
  obtain rs d2 where c: "calls f n d1 = (rs, d2)" by (cases "calls f n d1")
  have s2: "?s1\<lparr> dispensers := (dispensers ?s1)(name \<mapsto> Basic d2) \<rparr>
            = s\<lparr> dispensers := (dispensers s)(name \<mapsto> Basic d2) \<rparr>"
    by simp
  have "gets env (Suc n) name s
        = (case gets env n name ?s1 of (vs, s2) \<Rightarrow> (reply r # vs, s2))"
    using g by simp
  then have "gets env (Suc n) name s
        = (reply r # map reply rs, s\<lparr> dispensers := (dispensers s)(name \<mapsto> Basic d2) \<rparr>)"
    unfolding ih c by (simp only: fst_conv snd_conv prod.case s2)
  moreover have "map reply (fst (calls f (Suc n) d)) = reply r # map reply rs"
    and "snd (calls f (Suc n) d) = d2"
    using f c by simp_all
  ultimately show ?case by (simp only:)
qed

text \<open>The sequence mode of the basic dispenser, as long as the position fits in int64.\<close>

lemma calls_sequence:
  assumes "IncrMode (config d) \<noteq> IncrModeFixed" and "0 \<le> current d"
    and "0 \<le> Step (config d)" and "current d + int n * Step (config d) < 2 ^ 63"
    and "0 \<le> totalGenerated d" and "totalGenerated d + int n < 2 ^ 63"
  shows "calls nextNumericIncremental n d
         = (map (\<lambda>k. Inr (sprintf_d (current d + int k * Step (config d)))) [0 ..< n],
            d\<lparr> current := current d + int n * Step (config d),
               totalGenerated := totalGenerated d + int n \<rparr>)"
  using assms
proof (induction n arbitrary: d)
  case 0
  then show ?case by simp
next
  case (Suc n)
  let ?st = "Step (config d)"
  let ?d1 = "d\<lparr> current := current d + ?st, totalGenerated := totalGenerated d + 1 \<rparr>"
  have "0 \<le> int n * ?st" using Suc.prems(3) by simp
  then have lt: "current d + ?st < 2 ^ 63" using Suc.prems(4) by (simp add: algebra_simps)
  have "fits64 (current d + ?st)" using Suc.prems(2,3) lt by (intro fits64_nonneg) auto
  then have i1: "i64 (current d + ?st) = current d + ?st" by (rule i64_id)
  have "fits64 (totalGenerated d + 1)" using Suc.prems(5,6) by (intro fits64_nonneg) auto
  then have i2: "i64 (totalGenerated d + 1) = totalGenerated d + 1" by (rule i64_id)
  have f: "nextNumericIncremental d = (Inr (sprintf_d (current d)), ?d1)"
    using Suc.prems(1)
    by (simp add: nextNumericIncremental_def nextIncrSequence_def Let_def i1 i2)
  have ih: "calls nextNumericIncremental n ?d1
         = (map (\<lambda>k. Inr (sprintf_d (current ?d1 + int k * Step (config ?d1)))) [0 ..< n],
            ?d1\<lparr> current := current ?d1 + int n * Step (config ?d1),
                 totalGenerated := totalGenerated ?d1 + int n \<rparr>)"
  proof (rule Suc.IH)
    show "current ?d1 + int n * Step (config ?d1) < 2 ^ 63"
      using Suc.prems(4) by (simp add: algebra_simps)
    show "totalGenerated ?d1 + int n < 2 ^ 63" using Suc.prems(6) by simp
  qed (use Suc.prems in \<open>simp_all\<close>)
  have m: "map (\<lambda>k. Inr (sprintf_d (current d + int k * ?st))) [0 ..< Suc n]
           = Inr (sprintf_d (current d))
             # map (\<lambda>k. (Inr (sprintf_d (current d + ?st + int k * ?st)) :: error + string))
                 [0 ..< n]"
    unfolding map_upt_Suc by (simp add: algebra_simps)
  show ?case unfolding m using f ih by (simp add: algebra_simps)
qed

lemma handleGet_opt_other_type:
  assumes "dispensers s name = Some (Opt osd)"
    and "Type (osd_config osd) \<noteq> TypeNumericIncremental"
  shows "\<exists>msg. handleGet env [name] s = Some (Error msg, s)"
proof -
  have "(dispensers s)(name \<mapsto> Opt osd) = dispensers s"
    using assms(1) by (rule map_upd_triv)
  then show ?thesis using assms by (simp add: handleGet_def Next_nd_def Next_osd_def)
qed

lemma gets_opt_other_type:
  assumes "dispensers s name = Some (Opt osd)"
    and "Type (osd_config osd) \<noteq> TypeNumericIncremental"
  shows "bulks (fst (gets env n name s)) = []"
proof (induction n)
  case 0
  then show ?case by simp
next
  case (Suc n)
  from handleGet_opt_other_type [OF assms] obtain msg where
    h: "handleGet env [name] s = Some (Error msg, s)" by blast
  obtain vs s2 where g: "gets env n name s = (vs, s2)" by (cases "gets env n name s")
  then have "bulks vs = []" using Suc by simp
  then show ?case by (simp add: h g)
qed

lemma bulks_reply: "bulks (map reply rs) = oks rs"
  by (induction rs rule: oks.induct) simp_all

lemma nextNumericRandom_config: "nextNumericRandom d = (r, d') \<Longrightarrow> config d' = config d"
  by (cases r) (auto dest: nextNumericRandom_Inl nextNumericRandom_Inr)

section \<open>C5: a numeric-random dispenser never hands out a string twice\<close>

text \<open>
  C5, as amended. For every sequence of get requests for one name, with no hset and no
  delete in between, whose dispenser is numeric-random and is not the segment dispenser
  of pre-base, the successful results are pairwise distinct. When it is the basic
  dispenser (memory, elegant_close), every string handed out is recorded in the issued
  set (the set afterwards is the set before plus the results) and no string that was
  already in the set is returned. (Under pre-checkpoint and pre_close no request for a
  numeric-random dispenser succeeds.)
\<close>

theorem C5_random_results_distinct:
  "dispensers s name = Some nd \<and> Type (GetConfig_nd nd) = TypeNumericRandom
   \<and> (\<forall>sd. nd \<noteq> Seg sd)
   \<longrightarrow>
   distinct (bulks (fst (gets env n name s)))
   \<and> (\<forall>d. nd = Basic d \<longrightarrow>
         set (bulks (fst (gets env n name s))) \<inter> used d = {}
         \<and> (\<exists>d'. dispensers (snd (gets env n name s)) name = Some (Basic d')
                \<and> used d' = used d \<union> set (bulks (fst (gets env n name s)))))"
proof (intro impI)
  assume a: "dispensers s name = Some nd \<and> Type (GetConfig_nd nd) = TypeNumericRandom
   \<and> (\<forall>sd. nd \<noteq> Seg sd)"
  show "distinct (bulks (fst (gets env n name s)))
   \<and> (\<forall>d. nd = Basic d \<longrightarrow>
         set (bulks (fst (gets env n name s))) \<inter> used d = {}
         \<and> (\<exists>d'. dispensers (snd (gets env n name s)) name = Some (Basic d')
                \<and> used d' = used d \<union> set (bulks (fst (gets env n name s)))))"
  proof (cases nd)
    case (Basic d)
    have ty: "Type (config d) = TypeNumericRandom"
      using a Basic by (simp add: GetConfig_nd_def GetConfig_def)
    have g: "gets env n name s
             = (map reply (fst (calls nextNumericRandom n d)),
                s\<lparr> dispensers :=
                  (dispensers s)(name \<mapsto> Basic (snd (calls nextNumericRandom n d))) \<rparr>)"
    proof (rule gets_basic [where cfg = "config d"])
      show "dispensers s name = Some (Basic d)" using a Basic by simp
      show "Next env d' = Some (nextNumericRandom d')" if "config d' = config d" for d'
        using that ty by (simp add: Next_def)
      show "config d' = config d" if "config d0 = config d" "nextNumericRandom d0 = (r, d')"
        for d0 r d'
        using nextNumericRandom_config [OF that(2)] that(1) by simp
      show "\<not> (AutoDisk (config d) = StrategyElegantClose
               \<and> Type (config d) = TypeNumericIncremental)"
        using ty by (simp add: const_defs)
    qed simp
    obtain rs d' where c: "calls nextNumericRandom n d = (rs, d')"
      by (cases "calls nextNumericRandom n d")
    from calls_random [OF c] have r: "distinct (oks rs)" "set (oks rs) \<inter> used d = {}"
      "used d' = used d \<union> set (oks rs)" by blast+
    have b: "bulks (fst (gets env n name s)) = oks rs" unfolding g c by (simp add: bulks_reply)
    have d': "dispensers (snd (gets env n name s)) name = Some (Basic d')"
      unfolding g c by simp
    show ?thesis unfolding b using r d' Basic by auto
  next
    case (Seg sd)
    then show ?thesis using a by simp
  next
    case (Opt osd)
    have "Type (osd_config osd) \<noteq> TypeNumericIncremental"
      using a Opt by (simp add: GetConfig_nd_def const_defs)
    from gets_opt_other_type [OF _ this, of s name env n] a Opt
    have "bulks (fst (gets env n name s)) = []" by simp
    then show ?thesis using Opt by simp
  qed
qed

lemma srv_q0_facts:
  "(case dispensers srv_q0 ''q'' of
      Some (Basic d) \<Rightarrow> Type (config d) = TypeNumericRandom \<and> used d = {}
    | _ \<Rightarrow> False)"
  "bulks (fst (gets env_count 5 ''q'' srv_q0)) = map sprintf_d [1..5]"
  by code_simp+

theorem C5_random_results_distinct_witness:
  "(\<exists>d. dispensers srv_q0 ''q'' = Some (Basic d)
        \<and> Type (GetConfig_nd (Basic d)) = TypeNumericRandom
        \<and> (\<forall>sd. Basic d \<noteq> Seg sd) \<and> used d = {})
   \<and> bulks (fst (gets env_count 5 ''q'' srv_q0)) = map sprintf_d [1..5]
   \<and> distinct (bulks (fst (gets env_count 5 ''q'' srv_q0)))
   \<and> (\<exists>d'. dispensers (snd (gets env_count 5 ''q'' srv_q0)) ''q'' = Some (Basic d')
          \<and> used d' = set (map sprintf_d [1..5]))"
proof -
  from srv_q0_facts(1) obtain d where d: "dispensers srv_q0 ''q'' = Some (Basic d)"
    "Type (config d) = TypeNumericRandom" "used d = {}"
    by (auto split: option.splits NumberDispenser.splits)
  have t: "Type (GetConfig_nd (Basic d)) = TypeNumericRandom"
    using d(2) by (simp add: GetConfig_nd_def GetConfig_def)
  from C5_random_results_distinct [of srv_q0 "''q''" "Basic d" env_count 5] d(1) t
  have r: "distinct (bulks (fst (gets env_count 5 ''q'' srv_q0)))"
    "\<exists>d'. dispensers (snd (gets env_count 5 ''q'' srv_q0)) ''q'' = Some (Basic d')
          \<and> used d' = used d \<union> set (bulks (fst (gets env_count 5 ''q'' srv_q0)))"
    by simp_all
  from r(2) have "\<exists>d'. dispensers (snd (gets env_count 5 ''q'' srv_q0)) ''q'' = Some (Basic d')
          \<and> used d' = set (map sprintf_d [1..5])"
    unfolding d(3) srv_q0_facts(2) by simp
  with d t r(1) srv_q0_facts(2) show ?thesis by blast
qed

text \<open>
  C5 as stated fails in two ways. An hset that changes only auto_disk replaces the
  dispenser by a new one with an empty issued set (the current state is carried over for
  the incremental type only): after "1" and "2" under elegant_close and the change to
  memory, the next request returns "1" again, with no delete in between. And the segment
  dispenser of pre-base keeps no issued set: every request returns "10" for length 2.
\<close>

theorem C5_reissue_after_strategy_change:
  "fst (handleHSet env_count [''q'', ''type'', ''1'', ''length'', ''1'']
          (srv_empty (\<lambda>k. False))) = Integer 2
   \<and> fst (gets env_count 2 ''q'' srv_q0) = map BulkString [''1'', ''2'']
   \<and> fst (handleHSet env_count
            [''q'', ''type'', ''1'', ''length'', ''1'', ''auto_disk'', ''memory''] srv_q2)
       = Integer 3
   \<and> fst (gets env_count 1 ''q'' srv_q3) = [BulkString ''1'']
   \<and> fst (handleHSet env_count
            [''r'', ''type'', ''1'', ''length'', ''2'', ''auto_disk'', ''pre-base'']
            (srv_empty (\<lambda>k. False))) = Integer 3
   \<and> fst (gets env_count 2 ''r'' srv_r0) = map BulkString [''10'', ''10'']"
  by code_simp

section \<open>C4: the 80 percent threshold of the numeric-random dispenser\<close>

text \<open>
  C4, as amended. A numeric-random dispenser of length L (1 to 15) fails with exhausted
  exactly when the number of issued strings divided by the space 10^L - 10^(L-1) exceeds
  0.8. For L = 2 (space 90) a fresh dispenser that has issued n strings refuses the next
  call exactly when n is at least 73: after 73 successful issues the 74th call fails with
  exhausted, while after 72 the ratio is 0.8, which does not exceed 0.8.
\<close>

theorem C4_random_threshold:
  "(1 \<le> Length (config d) \<and> Length (config d) \<le> 15 \<longrightarrow>
      (fst (nextNumericRandom d) = Inl ErrNumberExhausted) =
      (real (card (used d))
         / real_of_int (10 ^ nat (Length (config d)) - 10 ^ nat (Length (config d) - 1))
       > 8 / 10))
   \<and> (Length (config d) = 2 \<and> used d = {} \<and> calls nextNumericRandom n d = (rs, d')
       \<and> length (oks rs) = n \<longrightarrow>
      (fst (nextNumericRandom d') = Inl ErrNumberExhausted) = (73 \<le> n))"
proof (intro conjI impI)
  assume a: "1 \<le> Length (config d) \<and> Length (config d) \<le> 15"
  then have r: "1 \<le> Length (config d)" "Length (config d) \<le> 18" by auto
  from random_space(2) [OF r]
  have pos: "(0::int) < 10 ^ nat (Length (config d)) - 10 ^ nat (Length (config d) - 1)" .
  have "(real (card (used d))
         / real_of_int (10 ^ nat (Length (config d)) - 10 ^ nat (Length (config d) - 1))
       > 8 / 10)
     = usage_exceeds (int (card (used d)))
         (10 ^ nat (Length (config d)) - 10 ^ nat (Length (config d) - 1))"
    using pos by (simp add: usage_exceeds_def)
  also have "\<dots> = (4 * (10 ^ nat (Length (config d)) - 10 ^ nat (Length (config d) - 1))
                     < 5 * int (card (used d)))"
    using pos by (rule usage_exceeds_iff)
  finally show "(fst (nextNumericRandom d) = Inl ErrNumberExhausted) =
      (real (card (used d))
         / real_of_int (10 ^ nat (Length (config d)) - 10 ^ nat (Length (config d) - 1))
       > 8 / 10)"
    using exhausted_iff [OF r] by simp
next
  assume a: "Length (config d) = 2 \<and> used d = {} \<and> calls nextNumericRandom n d = (rs, d')
       \<and> length (oks rs) = n"
  then have c: "calls nextNumericRandom n d = (rs, d')" and "used d = {}" by auto
  from calls_random_card [OF c] a have card: "card (used d') = n" by simp
  from calls_random [OF c] a have L: "Length (config d') = 2" by simp
  have "(fst (nextNumericRandom d') = Inl ErrNumberExhausted) =
        (4 * (10 ^ nat (Length (config d')) - 10 ^ nat (Length (config d') - 1))
           < 5 * int (card (used d')))"
    by (rule exhausted_iff) (simp_all add: L)
  also have "\<dots> = (73 \<le> n)" by (simp add: L card) linarith
  finally show "(fst (nextNumericRandom d') = Inl ErrNumberExhausted) = (73 \<le> n)" .
qed

theorem C4_random_threshold_witness:
  "1 \<le> Length (config d_random2) \<and> Length (config d_random2) \<le> 15
   \<and> used d_random2 = {}
   \<and> length (oks (fst (calls nextNumericRandom 73 d_random2))) = 73
   \<and> fst (nextNumericRandom (snd (calls nextNumericRandom 73 d_random2))) = Inl ErrNumberExhausted
   \<and> fst (nextNumericRandom d_random2) \<noteq> Inl ErrNumberExhausted"
proof -
  have L: "Length (config d_random2) = 2" and u: "used d_random2 = {}"
    by (simp_all add: d_random2_def cfg_random2_def Config0_def)
  have n: "length (oks (fst (calls nextNumericRandom 73 d_random2))) = 73"
    by (simp add: run_random2 oks_map_Inr)
  have c: "calls nextNumericRandom 73 d_random2
             = (fst (calls nextNumericRandom 73 d_random2), snd (calls nextNumericRandom 73 d_random2))"
    by simp
  from C4_random_threshold [of d_random2 73 "fst (calls nextNumericRandom 73 d_random2)"
         "snd (calls nextNumericRandom 73 d_random2)"] L u n c
  have last: "fst (nextNumericRandom (snd (calls nextNumericRandom 73 d_random2)))
                = Inl ErrNumberExhausted" by simp
  from C4_random_threshold [of d_random2 0 "[]" d_random2] L u
  have first: "fst (nextNumericRandom d_random2) \<noteq> Inl ErrNumberExhausted" by simp
  from L u n last first show ?thesis by simp
qed

text \<open>
  C4 as stated fails: from the fresh length-2 dispenser whose generator draws 0, 1, 2, ...
  the first 73 calls all succeed; the 73rd, made after 72 successful issues, returns "82".
\<close>

theorem C4_73rd_call_succeeds:
  "NewDispenser env_count cfg_random2 = Inr d_random2
   \<and> fst (calls nextNumericRandom 73 d_random2) = map (Inr \<circ> sprintf_d) [10..82]"
  using new_random2 run_random2 by simp

lemma i64_signed: "i64 x = signed_take_bit 63 x"
  by (simp add: i64_def signed_take_bit_eq_take_bit_shift take_bit_eq_mod)

lemma bit_i64: "bit (i64 x) n = bit x (min n 63)"
  by (simp add: i64_signed bit_signed_take_bit_iff min_def)

lemma and_31: "(x::int) AND 31 = take_bit 5 x"
proof -
  have "(31::int) = mask 5" by (simp add: mask_eq_exp_minus_1)
  then show ?thesis by (simp add: take_bit_eq_mask)
qed

lemma and_4095: "(x::int) AND 4095 = take_bit 12 x"
proof -
  have "(4095::int) = mask 12" by (simp add: mask_eq_exp_minus_1)
  then show ?thesis by (simp add: take_bit_eq_mask)
qed

lemma small_bits: "0 \<le> (x::int) \<Longrightarrow> x < 2 ^ k \<Longrightarrow> k \<le> n \<Longrightarrow> \<not> bit x n"
proof -
  assume a: "0 \<le> x" "x < 2 ^ k" "k \<le> n"
  then have "take_bit k x = x" by (simp add: take_bit_int_eq_self)
  then have "bit x n = bit (take_bit k x) n" by simp
  also have "\<dots> = False" using a by (simp add: bit_take_bit_iff)
  finally show ?thesis by simp
qed

lemma snowflake_machine_field:
  assumes "0 \<le> seq" "seq < 4096"
  shows "drop_bit 12 (snowflake_id cfg t seq) AND 31 = MachineID cfg AND 31"
proof (rule bit_eqI)
  fix n
  have s: "\<not> bit seq (12 + n)" using assms by (intro small_bits [of seq 12]) auto
  show "bit (drop_bit 12 (snowflake_id cfg t seq) AND 31) n = bit (MachineID cfg AND 31) n"
    using s
    by (auto simp add: snowflake_id_def Let_def and_31 bit_take_bit_iff bit_drop_bit_eq bit_or_iff
          bit_i64 bit_push_bit_iff min_def)
qed

lemma snowflake_datacenter_field:
  assumes "0 \<le> seq" "seq < 4096"
  shows "drop_bit 17 (snowflake_id cfg t seq) AND 31 = DatacenterID cfg AND 31"
proof (rule bit_eqI)
  fix n
  have s: "\<not> bit seq (17 + n)" using assms by (intro small_bits [of seq 12]) auto
  show "bit (drop_bit 17 (snowflake_id cfg t seq) AND 31) n = bit (DatacenterID cfg AND 31) n"
    using s
    by (auto simp add: snowflake_id_def Let_def and_31 bit_take_bit_iff bit_drop_bit_eq bit_or_iff
          bit_i64 bit_push_bit_iff min_def)
qed

lemma and_31_id: "0 \<le> (x::int) \<Longrightarrow> x \<le> 31 \<Longrightarrow> x AND 31 = x"
  by (simp add: and_31 take_bit_int_eq_self)

lemma seq_range: "0 \<le> i64 (x + 1) AND 0xFFF \<and> i64 (x + 1) AND 0xFFF < 4096"
proof -
  have "i64 (x + 1) AND 0xFFF = take_bit 12 (i64 (x + 1))" by (simp add: and_4095)
  moreover have "take_bit 12 (i64 (x + 1)) < 2 ^ 12" by (rule take_bit_int_less_exp)
  ultimately show ?thesis by simp
qed
lemma nextSnowflake_result:
  assumes "nextSnowflake env d = Some (Inr s, d')"
  shows "config d' = config d
         \<and> (\<exists>t seq. 0 \<le> seq \<and> seq < 4096 \<and> s = sprintf_d (snowflake_id (config d) t seq))"
proof (cases "clock env")
  case Nil
  with assms show ?thesis by (simp add: nextSnowflake_def)
next
  case (Cons t0 ts)
  define seq where
    "seq = (if t0 = lastTimestamp d then i64 (seqCounter d + 1) AND 0xFFF else 0)"
  have r: "0 \<le> seq \<and> seq < 4096" using seq_range [of "seqCounter d"] by (simp add: seq_def)
  define waited where
    "waited = (if t0 = lastTimestamp d \<and> seq = 0 then spin_wait (lastTimestamp d) t0 ts
               else Some t0)"
  from assms Cons obtain ts' where w: "waited = Some ts'"
    by (cases waited) (simp_all add: nextSnowflake_def Let_def seq_def waited_def)
  from assms Cons w
  have "s = sprintf_d (snowflake_id (config d) (i64 (ts' - snowflakeEpoch d)) seq)"
    and "config d' = config d"
    by (auto simp add: nextSnowflake_def Let_def seq_def waited_def)
  with r show ?thesis by blast
qed

section \<open>C9: machine and datacenter identifiers of a snowflake dispenser\<close>

text \<open>
  C9, as amended. Creating a snowflake dispenser accepts every machine-id and datacenter-id
  in 0..31. The configuration keeps the datacenter-id and every machine-id from 1 to 31;
  a machine-id of 0 is replaced by 1. Every generated identifier carries the machine-id
  and the datacenter-id of the dispenser's configuration in its two 5-bit fields (bits
  12..16 and 17..21).
\<close>

theorem C9_snowflake_ids:
  "(Type cfg = TypeSnowflake \<and> 0 \<le> MachineID cfg \<and> MachineID cfg \<le> 31
      \<and> 0 \<le> DatacenterID cfg \<and> DatacenterID cfg \<le> 31 \<longrightarrow>
      (\<exists>d. NewDispenser env cfg = Inr d
           \<and> MachineID (GetConfig d) = (if MachineID cfg = 0 then 1 else MachineID cfg)
           \<and> DatacenterID (GetConfig d) = DatacenterID cfg))
   \<and> (0 \<le> MachineID (config d) \<and> MachineID (config d) \<le> 31
      \<and> 0 \<le> DatacenterID (config d) \<and> DatacenterID (config d) \<le> 31
      \<and> nextSnowflake env d = Some (Inr s, d') \<longrightarrow>
      config d' = config d
      \<and> (\<exists>ident. s = sprintf_d ident
             \<and> drop_bit 12 ident AND 31 = MachineID (config d)
             \<and> drop_bit 17 ident AND 31 = DatacenterID (config d)))"
proof -
  have new: "\<exists>d. NewDispenser env cfg = Inr d
           \<and> MachineID (GetConfig d) = (if MachineID cfg = 0 then 1 else MachineID cfg)
           \<and> DatacenterID (GetConfig d) = DatacenterID cfg"
    if "Type cfg = TypeSnowflake \<and> 0 \<le> MachineID cfg \<and> MachineID cfg \<le> 31
      \<and> 0 \<le> DatacenterID cfg \<and> DatacenterID cfg \<le> 31"
    using that by (simp add: NewDispenser_def validateConfig_def GetConfig_def const_defs)
  have ids: "config d' = config d
      \<and> (\<exists>ident. s = sprintf_d ident
             \<and> drop_bit 12 ident AND 31 = MachineID (config d)
             \<and> drop_bit 17 ident AND 31 = DatacenterID (config d))"
    if a: "0 \<le> MachineID (config d) \<and> MachineID (config d) \<le> 31
      \<and> 0 \<le> DatacenterID (config d) \<and> DatacenterID (config d) \<le> 31
      \<and> nextSnowflake env d = Some (Inr s, d')"
  proof -
    from a have n: "nextSnowflake env d = Some (Inr s, d')" by simp
    from nextSnowflake_result [OF n] obtain t seq where
      c: "config d' = config d" and r: "0 \<le> seq" "seq < 4096"
      and s: "s = sprintf_d (snowflake_id (config d) t seq)" by blast
    have "drop_bit 12 (snowflake_id (config d) t seq) AND 31 = MachineID (config d)"
      using snowflake_machine_field [OF r] a by (simp add: and_31_id)
    moreover have "drop_bit 17 (snowflake_id (config d) t seq) AND 31 = DatacenterID (config d)"
      using snowflake_datacenter_field [OF r] a by (simp add: and_31_id)
    ultimately show ?thesis using c s by blast
  qed
  from new ids show ?thesis by blast
qed

lemma new_snow0: "NewDispenser env_tick cfg_snow0 = Inr d_snow0"
  by (simp add: NewDispenser_def validateConfig_def cfg_snow0_def Config0_def d_snow0_def
        env_tick_def env_count_def const_defs)

lemma next_snow0: "map_option fst (nextSnowflake env_tick d_snow0) = Some (Inr ''4198400'')"
  by code_simp

theorem C9_snowflake_ids_witness:
  "Type cfg_snow0 = TypeSnowflake \<and> MachineID cfg_snow0 = 0 \<and> DatacenterID cfg_snow0 = 0
   \<and> (\<exists>d. NewDispenser env_tick cfg_snow0 = Inr d \<and> MachineID (GetConfig d) = 1
          \<and> DatacenterID (GetConfig d) = 0)
   \<and> (\<exists>s d'. nextSnowflake env_tick d_snow0 = Some (Inr s, d')
          \<and> (\<exists>ident. s = sprintf_d ident \<and> drop_bit 12 ident AND 31 = 1
                 \<and> drop_bit 17 ident AND 31 = 0))"
proof -
  have c: "Type cfg_snow0 = TypeSnowflake" "MachineID cfg_snow0 = 0" "DatacenterID cfg_snow0 = 0"
    by (simp_all add: cfg_snow0_def Config0_def const_defs)
  have d: "MachineID (config d_snow0) = 1" "DatacenterID (config d_snow0) = 0"
    by (simp_all add: d_snow0_def cfg_snow0_def Config0_def)
  from next_snow0 obtain d' where n: "nextSnowflake env_tick d_snow0 = Some (Inr ''4198400'', d')"
    by (cases "nextSnowflake env_tick d_snow0") auto
  have n1: "\<exists>d. NewDispenser env_tick cfg_snow0 = Inr d \<and> MachineID (GetConfig d) = 1
          \<and> DatacenterID (GetConfig d) = 0"
    using C9_snowflake_ids [of cfg_snow0 env_tick d_snow0 "''4198400''" d'] c by simp
  have n2: "\<exists>ident. ''4198400'' = sprintf_d ident \<and> drop_bit 12 ident AND 31 = 1
                 \<and> drop_bit 17 ident AND 31 = 0"
    using C9_snowflake_ids [of cfg_snow0 env_tick d_snow0 "''4198400''" d'] d n by simp
  from c n1 n2 n show ?thesis by blast
qed

text \<open>
  C9 as stated fails for machine-id 0: the dispenser created with machine-id 0 reports
  machine-id 1, and the identifier it generates one millisecond after the epoch is
  4198400, whose machine-id field is 1.
\<close>

theorem C9_machine_id_zero_becomes_one:
  "MachineID cfg_snow0 = 0
   \<and> NewDispenser env_tick cfg_snow0 = Inr d_snow0
   \<and> MachineID (GetConfig d_snow0) = 1
   \<and> map_option fst (nextSnowflake env_tick d_snow0) = Some (Inr (sprintf_d 4198400))
   \<and> drop_bit 12 (4198400 :: int) AND 31 = 1"
proof -
  have "sprintf_d 4198400 = ''4198400''" by code_simp
  moreover have "drop_bit 12 (4198400 :: int) AND 31 = 1" by code_simp
  moreover have "MachineID cfg_snow0 = 0" "MachineID (GetConfig d_snow0) = 1"
    by (simp_all add: cfg_snow0_def d_snow0_def Config0_def GetConfig_def)
  ultimately show ?thesis using new_snow0 next_snow0 by simp
qed
lemma nextNumericIncremental_config:
  "nextNumericIncremental d = (r, d') \<Longrightarrow> config d' = config d"
  by (auto simp: nextNumericIncremental_def nextIncrFixed_def nextIncrSequence_def Let_def
           split: if_splits)

section \<open>C6: the immediate save of elegant_close\<close>

text \<open>
  C6, as amended. For a numeric-monotonic dispenser under the elegant_close strategy each
  successful next() is followed by an immediate save of the new current through the
  persistence hook: the state after the get request is the state after that save, and the
  snapshot then holds the new current. The result of the save is ignored: whether it
  succeeds or returns an error, the get request delivers the identifier.
\<close>

theorem C6_elegant_close_saves_and_delivers:
  "dispensers s name = Some (Basic d)
   \<and> AutoDisk (config d) = StrategyElegantClose
   \<and> Type (config d) = TypeNumericIncremental
   \<and> nextNumericIncremental d = (Inr number, d') \<longrightarrow>
   handleGet env [name] s
     = Some (BulkString number,
             s\<lparr> storage := snd (Save name (GetConfig d') (GetCurrent d') (storage s)),
                dispensers := (dispensers s)(name \<mapsto> Basic d') \<rparr>)
   \<and> data (snd (Save name (GetConfig d') (GetCurrent d') (storage s))) name
       = Some \<lparr> data_Config = config d, data_Current = current d' \<rparr>"
proof
  assume a: "dispensers s name = Some (Basic d)
   \<and> AutoDisk (config d) = StrategyElegantClose
   \<and> Type (config d) = TypeNumericIncremental
   \<and> nextNumericIncremental d = (Inr number, d')"
  then have n: "nextNumericIncremental d = (Inr number, d')" by simp
  from nextNumericIncremental_config [OF n] have c: "config d' = config d" .
  have nx: "Next_nd env (Basic d) (storage s) = Some (Inr number, Basic d', storage s)"
    using a by (simp add: Next_nd_def Next_def const_defs)
  obtain e fs where sv: "Save name (config d) (current d') (storage s) = (e, fs)"
    by (cases "Save name (config d) (current d') (storage s)")
  have get: "handleGet env [name] s
     = Some (BulkString number,
             s\<lparr> storage := snd (Save name (GetConfig d') (GetCurrent d') (storage s)),
                dispensers := (dispensers s)(name \<mapsto> Basic d') \<rparr>)"
    using a nx sv c
    by (simp add: handleGet_def GetConfig_nd_def GetCurrent_nd_def GetConfig_def GetCurrent_def)
  have dat: "data (snd (Save name (GetConfig d') (GetCurrent d') (storage s))) name
       = Some \<lparr> data_Config = config d, data_Current = current d' \<rparr>"
    by (simp add: Save_def saveToDisk_def Let_def GetConfig_def GetCurrent_def c)
  from get dat show "handleGet env [name] s
     = Some (BulkString number,
             s\<lparr> storage := snd (Save name (GetConfig d') (GetCurrent d') (storage s)),
                dispensers := (dispensers s)(name \<mapsto> Basic d') \<rparr>)
   \<and> data (snd (Save name (GetConfig d') (GetCurrent d') (storage s))) name
       = Some \<lparr> data_Config = config d, data_Current = current d' \<rparr>" by simp
qed

lemma srv_b_created:
  "fst (handleHSet env_count
     [''b'', ''type'', ''2'', ''incr_mode'', ''sequence'', ''starting'', ''100'']
     (srv_empty (\<lambda>k. k \<noteq> 0))) = Integer 3
   \<and> (\<exists>d. dispensers srv_b ''b'' = Some (Basic d)
          \<and> AutoDisk (config d) = StrategyElegantClose
          \<and> Type (config d) = TypeNumericIncremental
          \<and> fst (nextNumericIncremental d) = Inr ''100''
          \<and> fst (Save ''b'' (config d) (current (snd (nextNumericIncremental d)))
                  (storage srv_b)) = Some ErrIO)"
proof -
  have 1: "fst (handleHSet env_count
     [''b'', ''type'', ''2'', ''incr_mode'', ''sequence'', ''starting'', ''100'']
     (srv_empty (\<lambda>k. k \<noteq> 0))) = Integer 3" by code_simp
  have 2: "(case dispensers srv_b ''b'' of
              Some (Basic d) \<Rightarrow>
                AutoDisk (config d) = StrategyElegantClose
                \<and> Type (config d) = TypeNumericIncremental
                \<and> fst (nextNumericIncremental d) = Inr ''100''
                \<and> fst (Save ''b'' (config d) (current (snd (nextNumericIncremental d)))
                        (storage srv_b)) = Some ErrIO
            | _ \<Rightarrow> False)" by code_simp
  from 2 have "\<exists>d. dispensers srv_b ''b'' = Some (Basic d)
          \<and> AutoDisk (config d) = StrategyElegantClose
          \<and> Type (config d) = TypeNumericIncremental
          \<and> fst (nextNumericIncremental d) = Inr ''100''
          \<and> fst (Save ''b'' (config d) (current (snd (nextNumericIncremental d)))
                  (storage srv_b)) = Some ErrIO"
    by (auto split: option.splits NumberDispenser.splits)
  with 1 show ?thesis by simp
qed

theorem C6_elegant_close_saves_and_delivers_witness:
  "\<exists>d d'. dispensers srv_b ''b'' = Some (Basic d)
     \<and> AutoDisk (config d) = StrategyElegantClose
     \<and> Type (config d) = TypeNumericIncremental
     \<and> nextNumericIncremental d = (Inr ''100'', d')
     \<and> map_option fst (handleGet env_count [''b''] srv_b) = Some (BulkString ''100'')"
proof -
  from srv_b_created obtain d where d: "dispensers srv_b ''b'' = Some (Basic d)"
      "AutoDisk (config d) = StrategyElegantClose" "Type (config d) = TypeNumericIncremental"
      "fst (nextNumericIncremental d) = Inr ''100''" by blast
  obtain d' where n: "nextNumericIncremental d = (Inr ''100'', d')"
    using d(4) by (cases "nextNumericIncremental d") auto
  from C6_elegant_close_saves_and_delivers [of srv_b "''b''" d "''100''" d' env_count] d n
  have "map_option fst (handleGet env_count [''b''] srv_b) = Some (BulkString ''100'')" by simp
  with d n show ?thesis by blast
qed

text \<open>
  C6 as stated fails: on a server whose state file cannot be written any more, the save
  that follows the first \<open>get b\<close> returns an error, and the request still answers with
  the identifier "100" instead of an error.
\<close>

theorem C6_failed_save_still_delivers:
  "fst (handleHSet env_count
     [''b'', ''type'', ''2'', ''incr_mode'', ''sequence'', ''starting'', ''100'']
     (srv_empty (\<lambda>k. k \<noteq> 0))) = Integer 3
   \<and> map_option (\<lambda>d. fst (Save ''b'' (GetConfig_nd d) 101 (storage srv_b)))
        (dispensers srv_b ''b'') = Some (Some ErrIO)
   \<and> map_option fst (handleGet env_count [''b''] srv_b) = Some (BulkString ''100'')"
  by code_simp




section \<open>C8: the core fields of an existing dispenser cannot be changed\<close>




lemma srv_h0_dispenser:
  "\<exists>d. dispensers srv_h0 ''h'' = Some (Basic d)
      \<and> config d = Config0\<lparr> Type := 2, Step := 1, IncrMode := ''sequence'',
                             AutoDisk := ''memory'' \<rparr>
      \<and> current d = 0 \<and> totalGenerated d = 0"
proof -
  have "(case dispensers srv_h0 ''h'' of
           Some (Basic d) \<Rightarrow>
             config d = Config0\<lparr> Type := 2, Step := 1, IncrMode := ''sequence'',
                                 AutoDisk := ''memory'' \<rparr>
             \<and> current d = 0 \<and> totalGenerated d = 0
         | _ \<Rightarrow> False)"
    by code_simp
  then show ?thesis by (auto split: option.splits NumberDispenser.splits)
qed

lemma gets_h:
  assumes "int n < 2 ^ 63"
  shows "gets env_count n ''h'' srv_h0
         = (map (BulkString \<circ> sprintf_d \<circ> int) [0 ..< n], srv_h_at (int n))"
proof -
  let ?cfg = "Config0\<lparr> Type := 2, Step := 1, IncrMode := ''sequence'',
                        AutoDisk := ''memory'' \<rparr>"
  from srv_h0_dispenser obtain d where d: "dispensers srv_h0 ''h'' = Some (Basic d)"
    "config d = ?cfg" "current d = 0" "totalGenerated d = 0" by blast
  have c: "Type ?cfg = TypeNumericIncremental" "AutoDisk ?cfg \<noteq> StrategyElegantClose"
    "IncrMode ?cfg \<noteq> IncrModeFixed" "Step ?cfg = 1"
    by (simp_all add: Config0_def const_defs)
  have g: "gets env_count n ''h'' srv_h0
           = (map reply (fst (calls nextNumericIncremental n d)),
              srv_h0\<lparr> dispensers :=
                (dispensers srv_h0)(''h'' \<mapsto> Basic (snd (calls nextNumericIncremental n d))) \<rparr>)"
  proof (rule gets_basic [OF d(1) d(2)])
    show "Next env_count d' = Some (nextNumericIncremental d')" if "config d' = ?cfg" for d'
      using that c(1) by (simp add: Next_def const_defs)
    show "config d' = ?cfg" if "config d0 = ?cfg" "nextNumericIncremental d0 = (r, d')"
      for d0 r d'
      using nextNumericIncremental_config [OF that(2)] that(1) by simp
    show "\<not> (AutoDisk ?cfg = StrategyElegantClose \<and> Type ?cfg = TypeNumericIncremental)"
      using c(2) by simp
  qed
  have s: "calls nextNumericIncremental n d
           = (map (\<lambda>k. Inr (sprintf_d (current d + int k * Step (config d)))) [0 ..< n],
              d\<lparr> current := current d + int n * Step (config d),
                 totalGenerated := totalGenerated d + int n \<rparr>)"
  proof (rule calls_sequence)
    show "IncrMode (config d) \<noteq> IncrModeFixed" using d(2) c(3) by simp
    show "current d + int n * Step (config d) < 2 ^ 63" using assms d(2,3) c(4) by simp
    show "totalGenerated d + int n < 2 ^ 63" using assms d(4) by simp
    show "0 \<le> Step (config d)" using d(2) c(4) by simp
  qed (simp_all add: d(3,4))
  have at: "srv_h_at (int n)
            = srv_h0\<lparr> dispensers :=
                (dispensers srv_h0)(''h'' \<mapsto>
                   Basic (d\<lparr> current := current d + int n,
                             totalGenerated := totalGenerated d + int n \<rparr>)) \<rparr>"
    by (simp add: srv_h_at_def d(1))
  show ?thesis unfolding g s at using d(2) c(4) by (simp add: d(3) comp_def)
qed

section \<open>C7: a change of strategy and the position of the replacement\<close>

text \<open>
  C7 does not hold for a change to a segment-based strategy. A sequence dispenser under
  \<open>memory\<close> hands out 0 to 1499, so its current value is 1500. An hset that changes only
  auto_disk to \<open>pre_close\<close> succeeds, and the replacement reports 1500 as its current
  value; but it has allocated the segment from 0 to 1000 on creation, so its first next()
  finds the current value beyond the segment, allocates the following segment and resets
  the current value to 1000: the next requests return 1000 and 1001, which were handed
  out before. The same change to \<open>elegant_close\<close> continues with 1500 and 1501.
\<close>

theorem C7_replacement_restarts_below_current:
  "fst (gets env_count 1500 ''h'' srv_h0) = map (BulkString \<circ> sprintf_d \<circ> int) [0 ..< 1500]
   \<and> map_option GetCurrent_nd (dispensers (snd (gets env_count 1500 ''h'' srv_h0)) ''h'')
       = Some 1500
   \<and> fst (handleHSet env_count to_pre_close (snd (gets env_count 1500 ''h'' srv_h0)))
       = Integer 3
   \<and> map_option GetCurrent_nd
        (dispensers (snd (handleHSet env_count to_pre_close
                            (snd (gets env_count 1500 ''h'' srv_h0)))) ''h'')
       = Some 1500
   \<and> fst (gets env_count 2 ''h''
            (snd (handleHSet env_count to_pre_close
                    (snd (gets env_count 1500 ''h'' srv_h0)))))
       = map BulkString [''1000'', ''1001'']
   \<and> fst (gets env_count 2 ''h''
            (snd (handleHSet env_count
                    [''h'', ''type'', ''2'', ''incr_mode'', ''sequence'', ''auto_disk'',
                     ''elegant_close'']
                    (snd (gets env_count 1500 ''h'' srv_h0)))))
       = map BulkString [''1500'', ''1501'']"
proof -
  have e: "gets env_count 1500 ''h'' srv_h0
           = (map (BulkString \<circ> sprintf_d \<circ> int) [0 ..< 1500], srv_h_at 1500)"
    using gets_h [of 1500] by simp
  have r: "map_option GetCurrent_nd (dispensers (srv_h_at 1500) ''h'') = Some 1500"
    "fst (handleHSet env_count to_pre_close (srv_h_at 1500)) = Integer 3"
    "map_option GetCurrent_nd
        (dispensers (snd (handleHSet env_count to_pre_close (srv_h_at 1500))) ''h'')
       = Some 1500"
    "fst (gets env_count 2 ''h'' (snd (handleHSet env_count to_pre_close (srv_h_at 1500))))
       = map BulkString [''1000'', ''1001'']"
    "fst (gets env_count 2 ''h''
            (snd (handleHSet env_count
                    [''h'', ''type'', ''2'', ''incr_mode'', ''sequence'', ''auto_disk'',
                     ''elegant_close''] (srv_h_at 1500))))
       = map BulkString [''1500'', ''1501'']"
    by code_simp+
  show ?thesis unfolding e fst_conv snd_conv using r by (simp only: simp_thms)
qed

section \<open>C1: the saved position after a restart\<close>

text \<open>
  C1 does not hold for the segment-based strategies. Start-up sets the live current from
  the saved position (2000 here) under every strategy, and the basic dispenser then
  continues with 2000, 2001. The optimized segment dispenser has allocated its first
  segment from the configured start on creation; its first next() finds current beyond
  that segment, allocates the following segment and resets current to its start, so the
  requests after the restart return 1000 and 1001, which lie below the saved position.
\<close>

theorem C1_restart_reissues_below_saved_position:
  "map_option GetCurrent_nd (dispensers srv_c_basic ''c'') = Some 2000
   \<and> fst (gets env_count 2 ''c'' srv_c_basic) = map BulkString [''2000'', ''2001'']
   \<and> map_option GetCurrent_nd (dispensers srv_c ''c'') = Some 2000
   \<and> fst (gets env_count 2 ''c'' srv_c) = map BulkString [''1000'', ''1001'']"
  by code_simp

section \<open>C3: the cap of the fixed-width mode\<close>

text \<open>
  C3 holds for the basic dispenser and not for the segment allocator. With length 1 (cap
  9) the basic dispenser starting at 9 returns "9" and then fails with exhausted, and the
  one starting at 0 returns "0" to "9" and then fails. Under \<open>pre_close\<close> a dispenser
  starting at 9 cannot even be created (the allocator refuses a segment that starts at the
  cap), and for the one starting at 0 the prefetch, started by the first request, commits
  the segment from 10 to 1010 without looking at the cap: after "9" the requests return
  "10" and "11".
\<close>

theorem C3_segment_allocator_ignores_cap:
  "fst (gets env_count 2 ''d'' srv_d9)
     = [BulkString ''9'', Error ''ERR number range exhausted'']
   \<and> fst (handleHSet env_count
            [''d'', ''type'', ''2'', ''incr_mode'', ''fixed'', ''length'', ''1'', ''starting'',
             ''9'', ''auto_disk'', ''pre_close''] (srv_empty (\<lambda>k. False)))
       = Error ''ERR number range exhausted''
   \<and> fst (gets env_count 11 ''f'' srv_m0)
       = map (BulkString \<circ> sprintf_d) [0..9] @ [Error ''ERR number range exhausted'']
   \<and> fst (gets env_count 1 ''f'' srv_f0) = [BulkString ''0'']
   \<and> fst (gets env_count 11 ''f'' (runPreload ''f'' (snd (gets env_count 1 ''f'' srv_f0))))
       = map (BulkString \<circ> sprintf_d) [1..11]"
  by code_simp

section \<open>The basic segment dispenser\<close>
lemma maxValue_eq:
  assumes "1 \<le> L" "L \<le> 18"
  shows "i64 (pow10 L - 1) = 10 ^ nat L - 1" and "i64 (10 ^ nat L - 1 + 1) = 10 ^ nat L"
    and "(0::int) < 10 ^ nat L" and "(10::int) ^ nat L < 2 ^ 63"
proof -
  have p: "pow10 L = 10 ^ nat L" using assms by (intro pow10_eq) auto
  show hi: "(10::int) ^ nat L < 2 ^ 63" using assms by (intro pow10_fits) auto
  show pos: "(0::int) < 10 ^ nat L" by simp
  have "fits64 (10 ^ nat L - 1)" using hi pos by (intro fits64_nonneg) auto
  then show "i64 (pow10 L - 1) = 10 ^ nat L - 1" by (simp add: p i64_id)
  have "fits64 (10 ^ nat L - 1 + 1)" using hi pos by (intro fits64_nonneg) auto
  then show "i64 (10 ^ nat L - 1 + 1) = 10 ^ nat L" by (simp add: i64_id)
qed

lemma segment_sum:
  assumes "0 \<le> start" "0 < B" "start + B < 2 ^ 63"
  shows "i64 (start + i64 B) = start + B"
proof -
  have "fits64 B" using assms by (intro fits64_nonneg) auto
  moreover have "fits64 (start + B)" using assms by (intro fits64_nonneg) auto
  ultimately show ?thesis by (simp add: i64_id)
qed

text \<open>The first segment that \<open>NewSegmentDispenser\<close> allocates.\<close>

lemma NewSegmentDispenser_first:
  assumes new: "NewSegmentDispenser cfg segmentSize threshold pf h = (Inr sd, h')"
    and ty: "Type cfg \<noteq> TypeRandomFixed"
    and S: "S = (if segmentSize \<le> 0 then 100 else segmentSize)"
    and st: "step = (if Step cfg = 0 then 1 else Step cfg)"
    and fit: "Starting cfg + S * step < 2 ^ 63"
  shows "sd_currentNumber sd = Starting cfg
     \<and> sd_segmentEnd sd =
         (if Type cfg = TypeIncrFixed \<and> Starting cfg + S * step > 10 ^ nat (Length cfg) - 1
          then 10 ^ nat (Length cfg) else Starting cfg + S * step)
     \<and> Type (sd_config sd) = Type cfg \<and> Step (sd_config sd) = step
     \<and> Length (sd_config sd) = Length cfg
     \<and> Type cfg \<in> {TypeIncrFixed, TypeIncrZero} \<and> 0 \<le> Starting cfg \<and> 0 < step \<and> 0 < S"
proof -
  from new have v: "validateConfig_sd cfg = None"
    by (cases "validateConfig_sd cfg") (simp_all add: NewSegmentDispenser_def)
  have Spos: "0 < S" using S by simp
  have tys: "Type cfg \<in> {TypeIncrFixed, TypeIncrZero}"
    using v ty
    by (simp add: validateConfig_sd_def TypeRandomFixed_def TypeIncrFixed_def TypeIncrZero_def
          split: if_splits, arith)
  have s0: "0 \<le> Starting cfg"
    using v tys by (auto simp add: validateConfig_sd_def split: if_splits)
  have "0 \<le> Step cfg" using v by (simp add: validateConfig_sd_def split: if_splits)
  then have steppos: "0 < step" using st by simp
  have B: "0 < S * step" using Spos steppos by simp
  have L: "1 \<le> Length cfg \<and> Length cfg \<le> 18" if "Type cfg = TypeIncrFixed"
    using v that
    by (simp add: validateConfig_sd_def TypeRandomFixed_def TypeIncrFixed_def TypeIncrZero_def
          split: if_splits)
  define sd0 :: "'a SegmentDispenser" where
    "sd0 = \<lparr> sd_config = (if Step cfg = 0 then cfg\<lparr> Step := 1 \<rparr> else cfg),
              sd_currentNumber = 0, sd_segmentEnd = 0,
              sd_segmentSize = (if segmentSize \<le> 0 then 100 else segmentSize),
              sd_threshold = (if threshold \<le> 0 \<or> threshold \<ge> 1 then 2 / 10 else threshold),
              sd_nextSegmentStart = 0, sd_nextSegmentEnd = 0,
              sd_nextSegmentReady = False, sd_persistFunc = pf, sd_preloads = 0 \<rparr>"
  have c0: "Type (sd_config sd0) = Type cfg" "Step (sd_config sd0) = step"
      "Length (sd_config sd0) = Length cfg" "sd_segmentSize sd0 = S"
    by (simp_all add: sd0_def st S)
  have start: "(if Type cfg = TypeIncrZero \<and> Starting cfg = 0 then 0 else Starting cfg)
                 = Starting cfg" by simp
  from new v
  have "(case allocateSegment_sd sd0 (Starting cfg) h of
           (Some err, sd', h') \<Rightarrow> (Inl err, h')
         | (None, sd', h') \<Rightarrow> (Inr sd', h')) = (Inr sd, h')"
    unfolding NewSegmentDispenser_def sd0_def Let_def start
    by (simp split del: if_split)
  then have al: "allocateSegment_sd sd0 (Starting cfg) h = (None, sd, h')"
    by (cases "allocateSegment_sd sd0 (Starting cfg) h") (auto split: option.splits)
  have sum: "i64 (Starting cfg + i64 (S * step)) = Starting cfg + S * step"
    using s0 B fit by (rule segment_sum)
  show ?thesis
  proof (cases "Type cfg = TypeIncrFixed")
    case True
    note m = maxValue_eq [of "Length cfg"]
    from L [OF True] have Lr: "1 \<le> Length cfg" "Length cfg \<le> 18" by auto
    from al show ?thesis
      using True c0 sum m(1,2) [OF Lr] tys s0 steppos Spos
      by (auto simp add: allocateSegment_sd_def Let_def
            split: if_splits prod.splits option.splits)
  next
    case False
    from al show ?thesis
      using False c0 sum tys s0 steppos Spos
      by (auto simp add: allocateSegment_sd_def Let_def
            split: if_splits prod.splits option.splits)
  qed
qed

text \<open>A \<open>Next\<close> inside the segment hands out current and moves on by one step.\<close>

lemma Next_sd_inside:
  assumes "sd_currentNumber sd < sd_segmentEnd sd"
    and "Type (sd_config sd) \<in> {TypeIncrFixed, TypeIncrZero}"
    and "fits64 (sd_currentNumber sd + Step (sd_config sd))"
  shows "\<exists>s sd'. Next_sd sd h = (Inr s, sd', h)
           \<and> sd_currentNumber sd' = sd_currentNumber sd + Step (sd_config sd)
           \<and> sd_segmentEnd sd' = sd_segmentEnd sd \<and> sd_config sd' = sd_config sd"
  using assms
  by (auto simp add: Next_sd_def Let_def i64_id TypeRandomFixed_def TypeIncrFixed_def
        TypeIncrZero_def)

lemma calls_Next_sd_inside:
  assumes "Type (sd_config sd) \<in> {TypeIncrFixed, TypeIncrZero}"
    and "0 < Step (sd_config sd)" "0 \<le> sd_currentNumber sd"
    and "0 < k \<longrightarrow> sd_currentNumber sd + (int k - 1) * Step (sd_config sd) < sd_segmentEnd sd"
    and "sd_currentNumber sd + int k * Step (sd_config sd) < 2 ^ 63"
    and "calls Next_sd_step k (sd, h) = (rs, (sd', h'))"
  shows "sd_segmentEnd sd' = sd_segmentEnd sd
         \<and> sd_currentNumber sd' = sd_currentNumber sd + int k * Step (sd_config sd)
         \<and> sd_config sd' = sd_config sd \<and> length (oks rs) = k"
  using assms
proof (induction k arbitrary: sd rs)
  case 0
  then show ?case by simp
next
  case (Suc k)
  let ?step = "Step (sd_config sd)"
  have pos: "0 \<le> int k * ?step" using Suc.prems(2) by simp
  have inside: "sd_currentNumber sd < sd_segmentEnd sd"
  proof -
    have "sd_currentNumber sd \<le> sd_currentNumber sd + int k * ?step" using pos by simp
    also have "\<dots> < sd_segmentEnd sd" using Suc.prems(4) by simp
    finally show ?thesis .
  qed
  have "sd_currentNumber sd + ?step \<le> sd_currentNumber sd + ?step + int k * ?step"
    using pos by simp
  also have "\<dots> = sd_currentNumber sd + int (Suc k) * ?step" by (simp add: algebra_simps)
  also have "\<dots> < 2 ^ 63" using Suc.prems(5) .
  finally have hi: "sd_currentNumber sd + ?step < 2 ^ 63" .
  have f: "fits64 (sd_currentNumber sd + ?step)"
    using hi Suc.prems(2,3) by (intro fits64_nonneg) auto
  from Next_sd_inside [OF inside Suc.prems(1) f, of h] obtain s sd1 where
      n: "Next_sd sd h = (Inr s, sd1, h)"
      and c1: "sd_currentNumber sd1 = sd_currentNumber sd + ?step"
      and e1: "sd_segmentEnd sd1 = sd_segmentEnd sd" and g1: "sd_config sd1 = sd_config sd"
    by blast
  have ns: "Next_sd_step (sd, h) = (Inr s, (sd1, h))" using n by (simp add: Next_sd_step_def)
  obtain rs1 where r1: "calls Next_sd_step k (sd1, h) = (rs1, (sd', h'))" and rs: "rs = Inr s # rs1"
    using Suc.prems(6) ns by (auto split: prod.splits)
  have a4: "0 < k \<longrightarrow> sd_currentNumber sd1 + (int k - 1) * Step (sd_config sd1) < sd_segmentEnd sd1"
    using Suc.prems(4) by (simp add: c1 e1 g1 algebra_simps)
  have a5: "sd_currentNumber sd1 + int k * Step (sd_config sd1) < 2 ^ 63"
    using Suc.prems(5) by (simp add: c1 g1 algebra_simps)
  have a3: "0 \<le> sd_currentNumber sd1" using Suc.prems(2,3) by (simp add: c1)
  from Suc.IH [of sd1 rs1] Suc.prems(1,2) a3 a4 a5 r1
  have "sd_segmentEnd sd' = sd_segmentEnd sd1
         \<and> sd_currentNumber sd' = sd_currentNumber sd1 + int k * Step (sd_config sd1)
         \<and> sd_config sd' = sd_config sd1 \<and> length (oks rs1) = k"
    by (simp add: g1)
  then show ?case by (simp add: c1 e1 g1 rs algebra_simps)
qed

lemma persistAll_single:
  assumes "dispensers s name = Some d"
  shows "data (storage (snd (persistAll [name] s))) name
         = Some \<lparr> data_Config = GetConfig_nd d, data_Current = GetCurrent_nd d \<rparr>"
  using assms
  by (simp add: persistAll_def Save_def Flush_def saveToDisk_def Let_def split: prod.splits)

section \<open>C10: what GetCurrent of the basic segment dispenser reports\<close>

text \<open>
  C10, as amended. For a pre-base (SegmentDispenser) dispenser of an incrementing kind,
  GetCurrent() - the value that info shows as current and that the periodic persist of
  the whole registry writes - returns the committed end of the segment and not the next
  value to be handed out. After k successful issues within the first segment
  (0 <= k < segment_size) the next value is starting + k*step, while GetCurrent() is
  starting + segment_size*step, or 10^length when the fixed-width kind clamps the segment
  at its cap.
\<close>

theorem C10_GetCurrent_is_segment_end:
  "NewSegmentDispenser cfg segmentSize threshold pf fs = (Inr sd0, fs0)
   \<and> Type cfg \<noteq> TypeRandomFixed
   \<and> S = (if segmentSize \<le> 0 then 100 else segmentSize)
   \<and> step = (if Step cfg = 0 then 1 else Step cfg)
   \<and> Starting cfg + S * step < 2 ^ 63
   \<and> E = (if Type cfg = TypeIncrFixed \<and> Starting cfg + S * step > 10 ^ nat (Length cfg) - 1
          then 10 ^ nat (Length cfg) else Starting cfg + S * step)
   \<and> int k < S \<and> (0 < k \<longrightarrow> Starting cfg + (int k - 1) * step < E)
   \<and> calls Next_sd_step k (sd0, fs0) = (rs, (sd, fs1))
   \<longrightarrow>
   length (oks rs) = k
   \<and> sd_currentNumber sd = Starting cfg + int k * step
   \<and> GetCurrent_sd sd = E
   \<and> (E = Starting cfg + S * step \<longrightarrow> sd_currentNumber sd < GetCurrent_sd sd)
   \<and> (dispensers s name = Some (Seg sd) \<longrightarrow>
        data (storage (snd (persistAll [name] s))) name
          = Some \<lparr> data_Config = sd_config sd, data_Current = E \<rparr>)"
proof (intro impI)
  assume a: "NewSegmentDispenser cfg segmentSize threshold pf fs = (Inr sd0, fs0)
   \<and> Type cfg \<noteq> TypeRandomFixed
   \<and> S = (if segmentSize \<le> 0 then 100 else segmentSize)
   \<and> step = (if Step cfg = 0 then 1 else Step cfg)
   \<and> Starting cfg + S * step < 2 ^ 63
   \<and> E = (if Type cfg = TypeIncrFixed \<and> Starting cfg + S * step > 10 ^ nat (Length cfg) - 1
          then 10 ^ nat (Length cfg) else Starting cfg + S * step)
   \<and> int k < S \<and> (0 < k \<longrightarrow> Starting cfg + (int k - 1) * step < E)
   \<and> calls Next_sd_step k (sd0, fs0) = (rs, (sd, fs1))"
  then have new: "NewSegmentDispenser cfg segmentSize threshold pf fs = (Inr sd0, fs0)"
    and ty: "Type cfg \<noteq> TypeRandomFixed"
    and S: "S = (if segmentSize \<le> 0 then 100 else segmentSize)"
    and st: "step = (if Step cfg = 0 then 1 else Step cfg)"
    and fit: "Starting cfg + S * step < 2 ^ 63"
    and E: "E = (if Type cfg = TypeIncrFixed
                    \<and> Starting cfg + S * step > 10 ^ nat (Length cfg) - 1
                 then 10 ^ nat (Length cfg) else Starting cfg + S * step)"
    and k: "int k < S" "0 < k \<longrightarrow> Starting cfg + (int k - 1) * step < E"
    and c: "calls Next_sd_step k (sd0, fs0) = (rs, (sd, fs1))" by blast+
  from NewSegmentDispenser_first [OF new ty S st fit]
  have f: "sd_currentNumber sd0 = Starting cfg" "sd_segmentEnd sd0 = E"
      "Type (sd_config sd0) = Type cfg" "Step (sd_config sd0) = step"
      "Type cfg \<in> {TypeIncrFixed, TypeIncrZero}" "0 \<le> Starting cfg" "0 < step" "0 < S"
    unfolding E by blast+
  have "int k * step \<le> S * step" using k(1) f(7) by (intro mult_right_mono) auto
  then have hi: "Starting cfg + int k * step < 2 ^ 63" using fit by linarith
  have lt: "int k * step < S * step" using k(1) f(7) by (intro mult_strict_right_mono) auto
  from calls_Next_sd_inside [OF _ _ _ _ _ c] f k hi
  have r: "sd_segmentEnd sd = E" "sd_currentNumber sd = Starting cfg + int k * step"
      "length (oks rs) = k"
    by simp_all
  have p: "data (storage (snd (persistAll [name] s))) name
          = Some \<lparr> data_Config = sd_config sd, data_Current = E \<rparr>"
    if "dispensers s name = Some (Seg sd)"
    using persistAll_single [OF that] r(1)
    by (simp add: GetConfig_nd_def GetCurrent_nd_def GetCurrent_sd_def)
  show "length (oks rs) = k
   \<and> sd_currentNumber sd = Starting cfg + int k * step
   \<and> GetCurrent_sd sd = E
   \<and> (E = Starting cfg + S * step \<longrightarrow> sd_currentNumber sd < GetCurrent_sd sd)
   \<and> (dispensers s name = Some (Seg sd) \<longrightarrow>
        data (storage (snd (persistAll [name] s))) name
          = Some \<lparr> data_Config = sd_config sd, data_Current = E \<rparr>)"
    using r p lt by (simp add: GetCurrent_sd_def)
qed

lemma new_p_ok: "\<not> isl (fst new_p)"
  by code_simp

theorem C10_GetCurrent_is_segment_end_witness:
  "\<not> isl (fst new_p)
   \<and> Type cfg_p \<noteq> TypeRandomFixed \<and> Type cfg_p = TypeIncrFixed \<and> Length cfg_p = 2
   \<and> Starting cfg_p = 0 \<and> Step cfg_p = 0
   \<and> GetCurrent_sd (fst (snd (calls Next_sd_step 3 (projr (fst new_p), snd new_p)))) = 100
   \<and> sd_currentNumber (fst (snd (calls Next_sd_step 3 (projr (fst new_p), snd new_p)))) = 3"
proof -
  let ?run = "calls Next_sd_step 3 (projr (fst new_p), snd new_p)"
  have c: "Type cfg_p \<noteq> TypeRandomFixed" "Type cfg_p = TypeIncrFixed" "Length cfg_p = 2"
      "Starting cfg_p = 0" "Step cfg_p = 0"
    by (simp_all add: cfg_p_def Config0_def TypeRandomFixed_def TypeIncrFixed_def)
  have n: "NewSegmentDispenser cfg_p 1000 (1 / 10)
             (Some (factory_persist \<lparr> persistFunc = Some Save \<rparr> ''p'' cfg_p))
             (storage (srv_empty (\<lambda>k. False))) = (Inr (projr (fst new_p)), snd new_p)"
    using new_p_ok by (cases "fst new_p") (simp_all add: new_p_def prod_eq_iff)
  have r: "?run = (fst ?run, (fst (snd ?run), snd (snd ?run)))" by simp
  from C10_GetCurrent_is_segment_end [of cfg_p 1000 "1 / 10"
         "Some (factory_persist \<lparr> persistFunc = Some Save \<rparr> ''p'' cfg_p)"
         "storage (srv_empty (\<lambda>k. False))" "projr (fst new_p)" "snd new_p" 1000 1 100 3
         "fst ?run" "fst (snd ?run)" "snd (snd ?run)"] n c r
  have "GetCurrent_sd (fst (snd ?run)) = 100 \<and> sd_currentNumber (fst (snd ?run)) = 3"
    by simp
  with new_p_ok c show ?thesis by simp
qed

text \<open>
  C10 as stated fails for a fixed-width dispenser whose cap lies inside the first segment:
  for length 2, starting 0, step 1 and segment size 1000, GetCurrent() is 100 after
  creation and still after three issues, and the periodic persist writes 100; this is not
  starting + segment_size*step = 1000.
\<close>

theorem C10_clamped_segment_end:
  "fst (handleHSet env_count
          [''p'', ''type'', ''2'', ''incr_mode'', ''fixed'', ''length'', ''2'', ''auto_disk'',
           ''pre-base''] (srv_empty (\<lambda>k. False))) = Integer 4
   \<and> map_option GetCurrent_nd (dispensers srv_p0 ''p'') = Some 100
   \<and> fst (gets env_count 3 ''p'' srv_p0) = map BulkString [''00'', ''01'', ''02'']
   \<and> map_option GetCurrent_nd (dispensers srv_p3 ''p'') = Some 100
   \<and> map_option data_Current (data (storage (snd (persistAll [''p''] srv_p3))) ''p'') = Some 100
   \<and> (0::int) + 1000 * 1 \<noteq> 100"
  by code_simp

section \<open>The optimized segment dispenser in a run\<close>

lemma recordPersist_committed:
  "recordPersist v h = (r, h') \<Longrightarrow>
     committed h' = (if r = None then insert v (committed h) else committed h)"
  by (auto simp: recordPersist_def committed_def Let_def)

lemma call_recordPersist:
  assumes "call_persist (Some recordPersist) v h = (r, h')"
  shows "committed h \<subseteq> committed h'" and "r = None \<Longrightarrow> v \<in> committed h'"
  using recordPersist_committed [of v h r h'] assms
  by (auto simp: call_persist_def split: if_splits)

lemma seg_inv_mono:
  "seg_inv cfg S al b osd h \<Longrightarrow> b \<le> b' \<Longrightarrow> committed h \<subseteq> committed h' \<Longrightarrow>
     seg_inv cfg S al b' osd h'"
  unfolding seg_inv_def by (intro conjI impI; (elim conjE)?; force)

text \<open>What \<open>allocateSegment\<close> does when its sum does not overflow.\<close>

lemma allocateSegment_osd_result:
  assumes pf: "osd_persistFunc osd = Some recordPersist"
    and cf: "osd_config osd = cfg" and sz: "osd_segmentSize osd = S"
    and S: "0 < S" and st: "0 < Step cfg"
    and len: "IncrMode cfg = IncrModeFixed \<longrightarrow> 1 \<le> Length cfg \<and> Length cfg \<le> 18"
    and s0: "0 \<le> start" and fit: "start + S * Step cfg < 2 ^ 63"
    and al: "allocateSegment_osd osd start h = (r, osd', h')"
  shows "committed h \<subseteq> committed h'"
    and "r \<noteq> None \<Longrightarrow> osd' = osd"
    and "r = None \<Longrightarrow>
           \<exists>E. osd' = osd\<lparr> osd_currentNumber := start, osd_segmentEnd := E,
                           osd_lastPersisted := E \<rparr>
               \<and> E \<in> committed h' \<and> start < E \<and> E \<le> start + S * Step cfg
               \<and> (E = start + S * Step cfg
                  \<or> (IncrMode cfg = IncrModeFixed \<and> E = 10 ^ nat (Length cfg)))"
proof -
  have W: "0 < S * Step cfg" using S st by simp
  have e0: "i64 (start + i64 (S * Step cfg)) = start + S * Step cfg"
    using s0 W fit by (rule segment_sum)
  define mv where "mv = i64 (pow10 (Length cfg) - 1)"
  define E where "E = (if IncrMode cfg = IncrModeFixed \<and> start + S * Step cfg > mv
                       then i64 (mv + 1) else start + S * Step cfg)"
  have unf: "allocateSegment_osd osd start h =
       (if IncrMode cfg = IncrModeFixed \<and> start \<ge> mv then (Some ErrNumberExhausted, osd, h)
        else case call_persist (Some recordPersist) E h of
               (Some err, h') \<Rightarrow> (Some err, osd, h')
             | (None, h') \<Rightarrow>
                 (None, osd\<lparr> osd_currentNumber := start, osd_segmentEnd := E,
                               osd_lastPersisted := E \<rparr>, h'))"
    unfolding allocateSegment_osd_def Let_def pf cf sz e0 mv_def E_def ..
  show "committed h \<subseteq> committed h'"
  proof (cases "IncrMode cfg = IncrModeFixed \<and> start \<ge> mv")
    case True
    then show ?thesis using al unfolding unf by simp
  next
    case False
    obtain r1 h1 where c: "call_persist (Some recordPersist) E h = (r1, h1)"
      by (cases "call_persist (Some recordPersist) E h")
    then have "h' = h1" using al False unfolding unf by (cases r1) auto
    then show ?thesis using call_recordPersist(1) [OF c] by simp
  qed
  show "osd' = osd" if "r \<noteq> None"
  proof (cases "IncrMode cfg = IncrModeFixed \<and> start \<ge> mv")
    case True
    then show ?thesis using al unfolding unf by simp
  next
    case False
    obtain r1 h1 where c: "call_persist (Some recordPersist) E h = (r1, h1)"
      by (cases "call_persist (Some recordPersist) E h")
    then show ?thesis using al False that unfolding unf by (cases r1) auto
  qed
  show "\<exists>E. osd' = osd\<lparr> osd_currentNumber := start, osd_segmentEnd := E,
                           osd_lastPersisted := E \<rparr>
               \<and> E \<in> committed h' \<and> start < E \<and> E \<le> start + S * Step cfg
               \<and> (E = start + S * Step cfg
                  \<or> (IncrMode cfg = IncrModeFixed \<and> E = 10 ^ nat (Length cfg)))"
    if rn: "r = None"
  proof -
    have nf: "\<not> (IncrMode cfg = IncrModeFixed \<and> start \<ge> mv)"
      using al rn unfolding unf by (auto split: if_splits)
    obtain r1 h1 where c: "call_persist (Some recordPersist) E h = (r1, h1)"
      by (cases "call_persist (Some recordPersist) E h")
    have r1: "r1 = None" "h' = h1"
      and o: "osd' = osd\<lparr> osd_currentNumber := start, osd_segmentEnd := E,
                             osd_lastPersisted := E \<rparr>"
      using al nf rn c unfolding unf by (cases r1; auto)+
    have inE: "E \<in> committed h'" using call_recordPersist(2) [OF c] r1 by simp
    have EE: "start < E \<and> E \<le> start + S * Step cfg
               \<and> (E = start + S * Step cfg
                  \<or> (IncrMode cfg = IncrModeFixed \<and> E = 10 ^ nat (Length cfg)))"
    proof (cases "IncrMode cfg = IncrModeFixed \<and> start + S * Step cfg > mv")
      case True
      then have L: "1 \<le> Length cfg" "Length cfg \<le> 18" using len by auto
      have m: "mv = 10 ^ nat (Length cfg) - 1" unfolding mv_def using L by (rule maxValue_eq(1))
      have "E = i64 (10 ^ nat (Length cfg) - 1 + 1)" using True by (simp add: E_def m)
      then have E10: "E = 10 ^ nat (Length cfg)" using maxValue_eq(2) [OF L] by simp
      have "start < mv" using nf True by auto
      then show ?thesis using True E10 m by auto
    next
      case False
      then have "E = start + S * Step cfg" unfolding E_def by (simp only: if_False)
      then show ?thesis using W by simp
    qed
    show ?thesis using o inE EE by blast
  qed
qed

text \<open>
  The two phases of \<open>Next\<close>: the change of segment, if the current one is used up, and the
  issue of the number at the position.
\<close>

lemma Next_osd_shape:
  assumes ty: "Type (osd_config osd) = TypeNumericIncremental"
    and sw: "sw = (if osd_currentNumber osd \<ge> osd_segmentEnd osd then
                     (if osd_nextSegmentReady osd then
                        (None,
                         osd\<lparr> osd_totalWasted :=
                                i64 (osd_totalWasted osd
                                     + i64 (osd_segmentEnd osd - osd_lastPersisted osd)),
                              osd_currentNumber := osd_nextSegmentStart osd,
                              osd_segmentEnd := osd_nextSegmentEnd osd,
                              osd_nextSegmentReady := False \<rparr>, h)
                      else allocateSegment_osd osd (osd_segmentEnd osd) h)
                   else (None, osd, h))"
    and nx: "Next_osd osd h = (r, osd', h')"
  shows "(\<exists>err. sw = (Some err, osd', h') \<and> r = Inl err)
         \<or> (\<exists>osd1 g p. sw = (None, osd1, h')
               \<and> r = Inr (if IncrMode (osd_config osd1) = IncrModeFixed
                           then sprintf_0d (Length (osd_config osd1)) (osd_currentNumber osd1)
                           else sprintf_d (osd_currentNumber osd1))
               \<and> osd' = osd1\<lparr> osd_currentNumber :=
                                  i64 (osd_currentNumber osd1 + Step (osd_config osd1)),
                                osd_totalGenerated := g, osd_preloads := p \<rparr>)"
proof -
  obtain e1 osd1 h1 where s: "sw = (e1, osd1, h1)" by (cases sw)
  have unf: "Next_osd osd h =
      (case sw of
         (Some err, osd1, h1) \<Rightarrow> (Inl err, osd1, h1)
       | (None, osd1, h1) \<Rightarrow>
           (let num = osd_currentNumber osd1;
                osd2 = osd1\<lparr> osd_currentNumber :=
                               i64 (osd_currentNumber osd1 + Step (osd_config osd1)),
                             osd_totalGenerated := i64 (osd_totalGenerated osd1 + 1) \<rparr>;
                osd3 = (if remaining_low
                             (i64 (osd_segmentEnd osd2 - osd_currentNumber osd2))
                             (i64 (osd_segmentSize osd2 * Step (osd_config osd2)))
                             (osd_threshold osd2)
                           \<and> \<not> osd_nextSegmentReady osd2
                        then osd2\<lparr> osd_preloads := osd_preloads osd2 + 1 \<rparr> else osd2)
            in (Inr (if IncrMode (osd_config osd3) = IncrModeFixed
                     then sprintf_0d (Length (osd_config osd3)) num else sprintf_d num),
                osd3, h1)))"
    unfolding Next_osd_def sw Let_def by (simp only: ty simp_thms if_False)
  show ?thesis
  proof (cases e1)
    case (Some err)
    then show ?thesis using nx unfolding unf s by simp
  next
    case None
    define osd2 where "osd2 = osd1\<lparr> osd_currentNumber :=
                               i64 (osd_currentNumber osd1 + Step (osd_config osd1)),
                             osd_totalGenerated := i64 (osd_totalGenerated osd1 + 1) \<rparr>"
    define c where "c \<longleftrightarrow> remaining_low
                             (i64 (osd_segmentEnd osd2 - osd_currentNumber osd2))
                             (i64 (osd_segmentSize osd2 * Step (osd_config osd2)))
                             (osd_threshold osd2)
                           \<and> \<not> osd_nextSegmentReady osd2"
    define osd3 where "osd3 = (if c then osd2\<lparr> osd_preloads := osd_preloads osd2 + 1 \<rparr>
                               else osd2)"
    have r3: "Next_osd osd h =
                (Inr (if IncrMode (osd_config osd3) = IncrModeFixed
                      then sprintf_0d (Length (osd_config osd3)) (osd_currentNumber osd1)
                      else sprintf_d (osd_currentNumber osd1)), osd3, h1)"
      unfolding unf s None osd3_def c_def osd2_def Let_def by simp
    have p: "osd3 = osd2\<lparr> osd_preloads := (if c then osd_preloads osd2 + 1
                                             else osd_preloads osd2) \<rparr>"
      unfolding osd3_def by simp
    have c3: "osd_config osd3 = osd_config osd1" unfolding p osd2_def by simp
    have "h' = h1" "osd' = osd3"
      "r = Inr (if IncrMode (osd_config osd1) = IncrModeFixed
                then sprintf_0d (Length (osd_config osd1)) (osd_currentNumber osd1)
                else sprintf_d (osd_currentNumber osd1))"
      using nx unfolding r3 c3 by simp_all
    then show ?thesis unfolding p osd2_def using s None by blast
  qed
qed

lemma seg_invD:
  assumes "seg_inv cfg S al b osd h"
  shows "osd_config osd = cfg" and "osd_segmentSize osd = S"
    and "osd_persistFunc osd = Some recordPersist"
    and "Type cfg = TypeNumericIncremental" and "0 < S" and "0 < Step cfg"
    and "IncrMode cfg = IncrModeFixed \<longrightarrow> 1 \<le> Length cfg \<and> Length cfg \<le> 18"
    and "0 \<le> osd_segmentEnd osd" and "osd_segmentEnd osd \<le> b"
    and "osd_segmentEnd osd \<in> committed h"
    and "osd_nextSegmentReady osd \<Longrightarrow>
           osd_nextSegmentEnd osd \<in> committed h \<and> 0 \<le> osd_nextSegmentStart osd
           \<and> osd_nextSegmentStart osd + S * Step cfg = osd_nextSegmentEnd osd
           \<and> osd_nextSegmentEnd osd \<le> b"
    and "al \<Longrightarrow>
           (0 \<le> osd_currentNumber osd \<and> osd_currentNumber osd \<le> osd_segmentEnd osd
            \<and> Step cfg dvd (osd_segmentEnd osd - osd_currentNumber osd))
           \<or> (IncrMode cfg = IncrModeFixed \<and> osd_segmentEnd osd = 10 ^ nat (Length cfg))"
  using assms unfolding seg_inv_def by blast+

lemma seg_invI:
  assumes "osd_config osd = cfg" and "osd_segmentSize osd = S"
    and "osd_persistFunc osd = Some recordPersist"
    and "Type cfg = TypeNumericIncremental" and "0 < S" and "0 < Step cfg"
    and "IncrMode cfg = IncrModeFixed \<longrightarrow> 1 \<le> Length cfg \<and> Length cfg \<le> 18"
    and "0 \<le> osd_segmentEnd osd" and "osd_segmentEnd osd \<le> b"
    and "osd_segmentEnd osd \<in> committed h"
    and "osd_nextSegmentReady osd \<Longrightarrow>
           osd_nextSegmentEnd osd \<in> committed h \<and> 0 \<le> osd_nextSegmentStart osd
           \<and> osd_nextSegmentStart osd + S * Step cfg = osd_nextSegmentEnd osd
           \<and> osd_nextSegmentEnd osd \<le> b"
    and "al \<Longrightarrow>
           (0 \<le> osd_currentNumber osd \<and> osd_currentNumber osd \<le> osd_segmentEnd osd
            \<and> Step cfg dvd (osd_segmentEnd osd - osd_currentNumber osd))
           \<or> (IncrMode cfg = IncrModeFixed \<and> osd_segmentEnd osd = 10 ^ nat (Length cfg))"
  shows "seg_inv cfg S al b osd h"
  using assms unfolding seg_inv_def by blast

text \<open>The change of segment at the beginning of \<open>Next\<close>.\<close>

lemma switch_inv:
  assumes inv: "seg_inv cfg S al b osd h" and fit: "b + S * Step cfg < 2 ^ 63"
    and sw: "(if osd_currentNumber osd \<ge> osd_segmentEnd osd then
                (if osd_nextSegmentReady osd then
                   (None,
                    osd\<lparr> osd_totalWasted :=
                           i64 (osd_totalWasted osd
                                + i64 (osd_segmentEnd osd - osd_lastPersisted osd)),
                         osd_currentNumber := osd_nextSegmentStart osd,
                         osd_segmentEnd := osd_nextSegmentEnd osd,
                         osd_nextSegmentReady := False \<rparr>, h)
                 else allocateSegment_osd osd (osd_segmentEnd osd) h)
              else (None, osd, h)) = (e1, osd1, h1)"
  shows "seg_inv cfg S al (b + S * Step cfg) osd1 h1"
    and "e1 = None \<Longrightarrow> osd_currentNumber osd1 < osd_segmentEnd osd1"
proof -
  note d = seg_invD [OF inv]
  have W: "0 < S * Step cfg" using d(5,6) by simp
  have bb: "b \<le> b + S * Step cfg" using W by simp
  consider (inside) "osd_currentNumber osd < osd_segmentEnd osd"
    | (ready) "osd_currentNumber osd \<ge> osd_segmentEnd osd" "osd_nextSegmentReady osd"
    | (alloc) "osd_currentNumber osd \<ge> osd_segmentEnd osd" "\<not> osd_nextSegmentReady osd"
    by linarith
  then have "seg_inv cfg S al (b + S * Step cfg) osd1 h1
             \<and> (e1 = None \<longrightarrow> osd_currentNumber osd1 < osd_segmentEnd osd1)"
  proof cases
    case inside
    then have "e1 = None" "osd1 = osd" "h1 = h" using sw by simp_all
    then show ?thesis using inside seg_inv_mono [OF inv bb subset_refl] by simp
  next
    case ready
    note n = d(11) [OF ready(2)]
    have eq: "e1 = None" "h1 = h"
      "osd1 = osd\<lparr> osd_totalWasted :=
                       i64 (osd_totalWasted osd
                            + i64 (osd_segmentEnd osd - osd_lastPersisted osd)),
                     osd_currentNumber := osd_nextSegmentStart osd,
                     osd_segmentEnd := osd_nextSegmentEnd osd,
                     osd_nextSegmentReady := False \<rparr>"
      using sw ready by simp_all
    have lt: "osd_nextSegmentStart osd < osd_nextSegmentEnd osd" using n W by linarith
    have "osd_nextSegmentEnd osd - osd_nextSegmentStart osd = S * Step cfg"
      using n by linarith
    then have dv: "Step cfg dvd (osd_nextSegmentEnd osd - osd_nextSegmentStart osd)"
      by simp
    have "seg_inv cfg S al (b + S * Step cfg) osd1 h1"
      unfolding eq
      by (rule seg_invI) (use d n lt dv bb in \<open>simp_all\<close>)
    then show ?thesis using lt eq by simp
  next
    case alloc
    have a: "allocateSegment_osd osd (osd_segmentEnd osd) h = (e1, osd1, h1)"
      using sw alloc by simp
    have fit': "osd_segmentEnd osd + S * Step cfg < 2 ^ 63" using d(9) fit by simp
    note r = allocateSegment_osd_result [OF d(3) d(1) d(2) d(5) d(6) d(7) d(8) fit' a]
    show ?thesis
    proof (cases e1)
      case (Some err)
      then have "osd1 = osd" using r(2) by simp
      then show ?thesis using seg_inv_mono [OF inv bb r(1)] Some by simp
    next
      case None
      from r(3) [OF None] obtain E where
        o: "osd1 = osd\<lparr> osd_currentNumber := osd_segmentEnd osd, osd_segmentEnd := E,
                          osd_lastPersisted := E \<rparr>"
        and E: "E \<in> committed h1" "osd_segmentEnd osd < E"
          "E \<le> osd_segmentEnd osd + S * Step cfg"
          "E = osd_segmentEnd osd + S * Step cfg
           \<or> (IncrMode cfg = IncrModeFixed \<and> E = 10 ^ nat (Length cfg))"
        by blast
      have nr: "osd_nextSegmentReady osd1 = False" unfolding o using alloc by simp
      have al': "(0 \<le> osd_segmentEnd osd \<and> osd_segmentEnd osd \<le> E
                  \<and> Step cfg dvd (E - osd_segmentEnd osd))
                 \<or> (IncrMode cfg = IncrModeFixed \<and> E = 10 ^ nat (Length cfg))"
        using E d(8) by auto
      have "seg_inv cfg S al (b + S * Step cfg) osd1 h1"
      proof (rule seg_invI)
        show "osd_segmentEnd osd1 \<le> b + S * Step cfg" unfolding o using E(3) d(9) by simp
        show "0 \<le> osd_segmentEnd osd1" unfolding o using E(2) d(8) by simp
        show "osd_segmentEnd osd1 \<in> committed h1" unfolding o using E(1) by simp
        show "osd_nextSegmentEnd osd1 \<in> committed h1 \<and> 0 \<le> osd_nextSegmentStart osd1
              \<and> osd_nextSegmentStart osd1 + S * Step cfg = osd_nextSegmentEnd osd1
              \<and> osd_nextSegmentEnd osd1 \<le> b + S * Step cfg"
          if "osd_nextSegmentReady osd1" using that nr by simp
        show "(0 \<le> osd_currentNumber osd1 \<and> osd_currentNumber osd1 \<le> osd_segmentEnd osd1
               \<and> Step cfg dvd (osd_segmentEnd osd1 - osd_currentNumber osd1))
              \<or> (IncrMode cfg = IncrModeFixed \<and> osd_segmentEnd osd1 = 10 ^ nat (Length cfg))"
          if al unfolding o using al' by simp
      qed (use d in \<open>simp_all add: o\<close>)
      then show ?thesis using E(2) o by simp
    qed
  qed
  then show "seg_inv cfg S al (b + S * Step cfg) osd1 h1"
    and "e1 = None \<Longrightarrow> osd_currentNumber osd1 < osd_segmentEnd osd1" by blast+
qed

text \<open>The issue of the number at the position, inside the segment.\<close>

lemma issue_inv:
  assumes inv: "seg_inv cfg S al b osd1 h" and b: "b < 2 ^ 63"
    and lt: "osd_currentNumber osd1 < osd_segmentEnd osd1"
  shows "seg_inv cfg S al b
           (osd1\<lparr> osd_currentNumber := i64 (osd_currentNumber osd1 + Step cfg),
                  osd_totalGenerated := g, osd_preloads := p \<rparr>) h"
    and "al \<Longrightarrow> osd_currentNumber osd1 + Step cfg \<le> osd_segmentEnd osd1
                \<or> (IncrMode cfg = IncrModeFixed \<and> osd_segmentEnd osd1 = 10 ^ nat (Length cfg))"
proof -
  note d = seg_invD [OF inv]
  have step: "osd_currentNumber osd1 + Step cfg \<le> osd_segmentEnd osd1"
    if "Step cfg dvd (osd_segmentEnd osd1 - osd_currentNumber osd1)"
  proof -
    have "Step cfg \<le> osd_segmentEnd osd1 - osd_currentNumber osd1"
      using that lt by (intro zdvd_imp_le) auto
    then show ?thesis by simp
  qed
  show c2: "osd_currentNumber osd1 + Step cfg \<le> osd_segmentEnd osd1
        \<or> (IncrMode cfg = IncrModeFixed \<and> osd_segmentEnd osd1 = 10 ^ nat (Length cfg))"
    if al using d(12) [OF that] step by blast
  show "seg_inv cfg S al b
           (osd1\<lparr> osd_currentNumber := i64 (osd_currentNumber osd1 + Step cfg),
                  osd_totalGenerated := g, osd_preloads := p \<rparr>) h"
  proof (rule seg_invI)
    show "(0 \<le> osd_currentNumber
                 (osd1\<lparr> osd_currentNumber := i64 (osd_currentNumber osd1 + Step cfg),
                        osd_totalGenerated := g, osd_preloads := p \<rparr>)
           \<and> osd_currentNumber
                 (osd1\<lparr> osd_currentNumber := i64 (osd_currentNumber osd1 + Step cfg),
                        osd_totalGenerated := g, osd_preloads := p \<rparr>)
               \<le> osd_segmentEnd
                    (osd1\<lparr> osd_currentNumber := i64 (osd_currentNumber osd1 + Step cfg),
                           osd_totalGenerated := g, osd_preloads := p \<rparr>)
           \<and> Step cfg dvd
               (osd_segmentEnd
                  (osd1\<lparr> osd_currentNumber := i64 (osd_currentNumber osd1 + Step cfg),
                         osd_totalGenerated := g, osd_preloads := p \<rparr>)
                - osd_currentNumber
                    (osd1\<lparr> osd_currentNumber := i64 (osd_currentNumber osd1 + Step cfg),
                           osd_totalGenerated := g, osd_preloads := p \<rparr>)))
          \<or> (IncrMode cfg = IncrModeFixed
              \<and> osd_segmentEnd
                    (osd1\<lparr> osd_currentNumber := i64 (osd_currentNumber osd1 + Step cfg),
                           osd_totalGenerated := g, osd_preloads := p \<rparr>)
                  = 10 ^ nat (Length cfg))"
      if a: al
    proof (cases "IncrMode cfg = IncrModeFixed \<and> osd_segmentEnd osd1 = 10 ^ nat (Length cfg)")
      case True
      then show ?thesis by simp
    next
      case False
      then have g: "0 \<le> osd_currentNumber osd1"
        "Step cfg dvd (osd_segmentEnd osd1 - osd_currentNumber osd1)"
        using d(12) [OF a] by blast+
      have le: "osd_currentNumber osd1 + Step cfg \<le> osd_segmentEnd osd1" using step g(2) .
      have "fits64 (osd_currentNumber osd1 + Step cfg)"
        using g(1) d(6) le d(9) b by (intro fits64_nonneg) auto
      then have i: "i64 (osd_currentNumber osd1 + Step cfg) = osd_currentNumber osd1 + Step cfg"
        by (rule i64_id)
      have "Step cfg dvd (osd_segmentEnd osd1 - osd_currentNumber osd1 - Step cfg)"
        using g(2) by simp
      then have "Step cfg dvd (osd_segmentEnd osd1 - (osd_currentNumber osd1 + Step cfg))"
        by (simp add: algebra_simps)
      then show ?thesis using g(1) d(6) le by (simp add: i)
    qed
  qed (use d in \<open>simp_all\<close>)
qed

text \<open>One call of \<open>Next\<close>: the invariant is kept, and a number is issued from below a committed end.\<close>

lemma Next_osd_inv:
  assumes inv: "seg_inv cfg S al b osd h" and fit: "b + S * Step cfg < 2 ^ 63"
    and nx: "Next_osd osd h = (r, osd', h')"
  shows "seg_inv cfg S al (b + S * Step cfg) osd' h'"
    and "r = Inr s \<Longrightarrow>
           \<exists>v e. s = (if IncrMode cfg = IncrModeFixed then sprintf_0d (Length cfg) v
                       else sprintf_d v)
                 \<and> e \<in> committed h' \<and> v < e
                 \<and> (al \<longrightarrow> v + Step cfg \<le> e
                             \<or> (IncrMode cfg = IncrModeFixed \<and> e = 10 ^ nat (Length cfg)))"
proof -
  note d = seg_invD [OF inv]
  have ty: "Type (osd_config osd) = TypeNumericIncremental" using d(1,4) by simp
  define sw where
    "sw = (if osd_currentNumber osd \<ge> osd_segmentEnd osd then
             (if osd_nextSegmentReady osd then
                (None,
                 osd\<lparr> osd_totalWasted :=
                        i64 (osd_totalWasted osd
                             + i64 (osd_segmentEnd osd - osd_lastPersisted osd)),
                      osd_currentNumber := osd_nextSegmentStart osd,
                      osd_segmentEnd := osd_nextSegmentEnd osd,
                      osd_nextSegmentReady := False \<rparr>, h)
              else allocateSegment_osd osd (osd_segmentEnd osd) h)
           else (None, osd, h))"
  from Next_osd_shape [OF ty sw_def nx]
  consider (fail) err where "sw = (Some err, osd', h')" "r = Inl err"
    | (ok) osd1 g p where "sw = (None, osd1, h')"
        "r = Inr (if IncrMode (osd_config osd1) = IncrModeFixed
                  then sprintf_0d (Length (osd_config osd1)) (osd_currentNumber osd1)
                  else sprintf_d (osd_currentNumber osd1))"
        "osd' = osd1\<lparr> osd_currentNumber :=
                          i64 (osd_currentNumber osd1 + Step (osd_config osd1)),
                        osd_totalGenerated := g, osd_preloads := p \<rparr>"
    by blast
  then have "seg_inv cfg S al (b + S * Step cfg) osd' h'
     \<and> (r = Inr s \<longrightarrow>
          (\<exists>v e. s = (if IncrMode cfg = IncrModeFixed then sprintf_0d (Length cfg) v
                       else sprintf_d v)
                 \<and> e \<in> committed h' \<and> v < e
                 \<and> (al \<longrightarrow> v + Step cfg \<le> e
                             \<or> (IncrMode cfg = IncrModeFixed \<and> e = 10 ^ nat (Length cfg)))))"
  proof cases
    case fail
    from switch_inv(1) [OF inv fit fail(1) [unfolded sw_def]]
    show ?thesis using fail(2) by simp
  next
    case ok
    note s1 = switch_inv [OF inv fit ok(1) [unfolded sw_def]]
    have lt: "osd_currentNumber osd1 < osd_segmentEnd osd1" using s1(2) by simp
    note d1 = seg_invD [OF s1(1)]
    from issue_inv [OF s1(1) fit lt]
    have i1: "seg_inv cfg S al (b + S * Step cfg) osd' h'"
      and i2: "al \<longrightarrow> osd_currentNumber osd1 + Step cfg \<le> osd_segmentEnd osd1
                \<or> (IncrMode cfg = IncrModeFixed
                    \<and> osd_segmentEnd osd1 = 10 ^ nat (Length cfg))"
      unfolding ok(3) d1(1) by blast+
    have "s = (if IncrMode cfg = IncrModeFixed
               then sprintf_0d (Length cfg) (osd_currentNumber osd1)
               else sprintf_d (osd_currentNumber osd1))" if "r = Inr s"
      using that ok(2) unfolding d1(1) by simp
    then show ?thesis using i1 i2 lt d1(10) by blast
  qed
  then show "seg_inv cfg S al (b + S * Step cfg) osd' h'"
    and "r = Inr s \<Longrightarrow>
           \<exists>v e. s = (if IncrMode cfg = IncrModeFixed then sprintf_0d (Length cfg) v
                       else sprintf_d v)
                 \<and> e \<in> committed h' \<and> v < e
                 \<and> (al \<longrightarrow> v + Step cfg \<le> e
                             \<or> (IncrMode cfg = IncrModeFixed \<and> e = 10 ^ nat (Length cfg)))"
    by blast+
qed

text \<open>The prefetch goroutine, the checkpoint and \<open>SetCurrent\<close>.\<close>

lemma preloadNextSegment_osd_inv:
  assumes inv: "seg_inv cfg S al b osd h" and fit: "b + S * Step cfg < 2 ^ 63"
    and pre: "preloadNextSegment_osd osd h = (osd', h')"
  shows "seg_inv cfg S al (b + S * Step cfg) osd' h'"
proof -
  note d = seg_invD [OF inv]
  have W: "0 < S * Step cfg" using d(5,6) by simp
  have bb: "b \<le> b + S * Step cfg" using W by simp
  define osd0 where "osd0 = osd\<lparr> osd_preloads := osd_preloads osd - 1 \<rparr>"
  have inv0: "seg_inv cfg S al b osd0 h"
    unfolding osd0_def by (rule seg_invI) (use d in \<open>simp_all\<close>)
  note d0 = seg_invD [OF inv0]
  define end1 where "end1 = osd_segmentEnd osd0 + S * Step cfg"
  have e1: "i64 (osd_segmentEnd osd0 + i64 (osd_segmentSize osd0 * Step (osd_config osd0)))
            = end1"
    unfolding end1_def d0(1) d0(2) using d0(8) W
  proof (rule segment_sum)
    show "osd_segmentEnd osd0 + S * Step cfg < 2 ^ 63" using d0(9) fit by simp
  qed
  have unf: "preloadNextSegment_osd osd h =
      (if osd_preloads osd = 0 then (osd, h)
       else if osd_nextSegmentReady osd0 then (osd0, h)
       else case call_persist (Some recordPersist) end1 h of
              (Some err, h') \<Rightarrow> (osd0, h')
            | (None, h') \<Rightarrow>
                (osd0\<lparr> osd_nextSegmentStart := osd_segmentEnd osd0,
                       osd_nextSegmentEnd := end1,
                       osd_nextSegmentReady := True \<rparr>, h'))"
    unfolding preloadNextSegment_osd_def Let_def osd0_def [symmetric] e1 d0(3) ..
  consider (none) "osd_preloads osd = 0"
    | (ready) "osd_preloads osd \<noteq> 0" "osd_nextSegmentReady osd0"
    | (run) "osd_preloads osd \<noteq> 0" "\<not> osd_nextSegmentReady osd0"
    by blast
  then show ?thesis
  proof cases
    case none
    then have "osd' = osd" "h' = h" using pre unfolding unf by simp_all
    then show ?thesis using seg_inv_mono [OF inv bb subset_refl] by simp
  next
    case ready
    then have "osd' = osd0" "h' = h" using pre unfolding unf by simp_all
    then show ?thesis using seg_inv_mono [OF inv0 bb subset_refl] by simp
  next
    case run
    obtain r1 h1 where c: "call_persist (Some recordPersist) end1 h = (r1, h1)"
      by (cases "call_persist (Some recordPersist) end1 h")
    note cp = call_recordPersist [OF c]
    show ?thesis
    proof (cases r1)
      case (Some err)
      then have "osd' = osd0" "h' = h1" using pre run c unfolding unf by simp_all
      then show ?thesis using seg_inv_mono [OF inv0 bb cp(1)] by simp
    next
      case None
      then have o: "osd' = osd0\<lparr> osd_nextSegmentStart := osd_segmentEnd osd0,
                                  osd_nextSegmentEnd := end1,
                                  osd_nextSegmentReady := True \<rparr>"
        and hh: "h' = h1" using pre run c unfolding unf by simp_all
      have in1: "end1 \<in> committed h1" using cp(2) None by simp
      have le1: "end1 \<le> b + S * Step cfg" unfolding end1_def using d0(9) by simp
      have m: "seg_inv cfg S al (b + S * Step cfg) osd0 h1"
        using seg_inv_mono [OF inv0 bb cp(1)] .
      note dm = seg_invD [OF m]
      show ?thesis unfolding o hh
      proof (rule seg_invI)
        show "osd_nextSegmentEnd
                (osd0\<lparr> osd_nextSegmentStart := osd_segmentEnd osd0,
                       osd_nextSegmentEnd := end1, osd_nextSegmentReady := True \<rparr>)
                \<in> committed h1
              \<and> 0 \<le> osd_nextSegmentStart
                      (osd0\<lparr> osd_nextSegmentStart := osd_segmentEnd osd0,
                             osd_nextSegmentEnd := end1, osd_nextSegmentReady := True \<rparr>)
              \<and> osd_nextSegmentStart
                    (osd0\<lparr> osd_nextSegmentStart := osd_segmentEnd osd0,
                           osd_nextSegmentEnd := end1, osd_nextSegmentReady := True \<rparr>)
                  + S * Step cfg
                = osd_nextSegmentEnd
                    (osd0\<lparr> osd_nextSegmentStart := osd_segmentEnd osd0,
                           osd_nextSegmentEnd := end1, osd_nextSegmentReady := True \<rparr>)
              \<and> osd_nextSegmentEnd
                    (osd0\<lparr> osd_nextSegmentStart := osd_segmentEnd osd0,
                           osd_nextSegmentEnd := end1, osd_nextSegmentReady := True \<rparr>)
                  \<le> b + S * Step cfg"
          using in1 le1 d0(8) by (simp add: end1_def)
        show "(0 \<le> osd_currentNumber
                     (osd0\<lparr> osd_nextSegmentStart := osd_segmentEnd osd0,
                            osd_nextSegmentEnd := end1, osd_nextSegmentReady := True \<rparr>)
               \<and> osd_currentNumber
                     (osd0\<lparr> osd_nextSegmentStart := osd_segmentEnd osd0,
                            osd_nextSegmentEnd := end1, osd_nextSegmentReady := True \<rparr>)
                   \<le> osd_segmentEnd
                        (osd0\<lparr> osd_nextSegmentStart := osd_segmentEnd osd0,
                               osd_nextSegmentEnd := end1, osd_nextSegmentReady := True \<rparr>)
               \<and> Step cfg dvd
                   (osd_segmentEnd
                      (osd0\<lparr> osd_nextSegmentStart := osd_segmentEnd osd0,
                             osd_nextSegmentEnd := end1, osd_nextSegmentReady := True \<rparr>)
                    - osd_currentNumber
                        (osd0\<lparr> osd_nextSegmentStart := osd_segmentEnd osd0,
                               osd_nextSegmentEnd := end1, osd_nextSegmentReady := True \<rparr>)))
              \<or> (IncrMode cfg = IncrModeFixed
                  \<and> osd_segmentEnd
                        (osd0\<lparr> osd_nextSegmentStart := osd_segmentEnd osd0,
                               osd_nextSegmentEnd := end1, osd_nextSegmentReady := True \<rparr>)
                      = 10 ^ nat (Length cfg))"
          if al using dm(12) [OF that] by simp
      qed (use dm in \<open>simp_all\<close>)
    qed
  qed
qed

lemma checkpoint_inv:
  assumes inv: "seg_inv cfg S al b osd h" and cp: "checkpoint osd h = (r, osd', h')"
  shows "seg_inv cfg S al b osd' h'"
proof -
  note d = seg_invD [OF inv]
  define cur where "cur = osd_currentNumber osd"
  have unf: "checkpoint osd h =
      (if cur \<noteq> osd_lastPersisted osd then
         (case call_persist (Some recordPersist) cur h of
            (Some err, h') \<Rightarrow> (Some err, osd, h')
          | (None, h') \<Rightarrow> (None, osd\<lparr> osd_lastPersisted := cur \<rparr>, h'))
       else (None, osd, h))"
    unfolding checkpoint_def Let_def cur_def d(3) by simp
  have upd: "seg_inv cfg S al b (osd\<lparr> osd_lastPersisted := cur \<rparr>) h"
    by (rule seg_invI) (use d in \<open>simp_all\<close>)
  show ?thesis
  proof (cases "cur \<noteq> osd_lastPersisted osd")
    case False
    then have "osd' = osd" "h' = h" using cp unfolding unf by simp_all
    then show ?thesis using inv by simp
  next
    case True
    obtain r1 h1 where c: "call_persist (Some recordPersist) cur h = (r1, h1)"
      by (cases "call_persist (Some recordPersist) cur h")
    note m = call_recordPersist(1) [OF c]
    show ?thesis
    proof (cases r1)
      case (Some err)
      then have "osd' = osd" "h' = h1" using cp True c unfolding unf by simp_all
      then show ?thesis using seg_inv_mono [OF inv order_refl m] by simp
    next
      case None
      then have "osd' = osd\<lparr> osd_lastPersisted := cur \<rparr>" "h' = h1"
        using cp True c unfolding unf by simp_all
      then show ?thesis using seg_inv_mono [OF upd order_refl m] by simp
    qed
  qed
qed

lemma SetCurrent_osd_inv:
  assumes inv: "seg_inv cfg S al b osd h"
  shows "seg_inv cfg S False b (SetCurrent_osd osd c) h"
  unfolding SetCurrent_osd_def
  by (rule seg_invI) (use seg_invD [OF inv] in \<open>simp_all\<close>)

text \<open>A whole run, by induction on its events.\<close>

lemma run_osd_inv:
  assumes "seg_inv cfg S al b osd h"
    and "b + int (length es) * (S * Step cfg) < 2 ^ 63"
    and "run_osd es osd h = (rs, osd', h')"
    and "(Inr s, hr) \<in> set rs"
  shows "\<exists>v e. s = (if IncrMode cfg = IncrModeFixed then sprintf_0d (Length cfg) v
                     else sprintf_d v)
               \<and> e \<in> committed hr \<and> v < e
               \<and> (al \<and> (\<forall>c. EvSetCurrent c \<notin> set es) \<longrightarrow>
                    v + Step cfg \<le> e
                    \<or> (IncrMode cfg = IncrModeFixed \<and> e = 10 ^ nat (Length cfg)))"
  using assms
proof (induction es arbitrary: al b osd h rs osd' h')
  case Nil
  then show ?case by simp
next
  case (Cons ev es)
  note d = seg_invD [OF Cons.prems(1)]
  have W: "0 < S * Step cfg" using d(5,6) by simp
  have len: "0 \<le> int (length es) * (S * Step cfg)" using W by simp
  have bnd: "b + S * Step cfg + int (length es) * (S * Step cfg) < 2 ^ 63"
    using Cons.prems(2) by (simp add: algebra_simps)
  have fit: "b + S * Step cfg < 2 ^ 63" using bnd len by linarith
  have bnd0: "b + int (length es) * (S * Step cfg) < 2 ^ 63" using bnd W by linarith
  show ?case
  proof (cases ev)
    case EvNext
    obtain r osd1 h1 where nx: "Next_osd osd h = (r, osd1, h1)"
      by (cases "Next_osd osd h")
    obtain rs2 osd2 h2 where run: "run_osd es osd1 h1 = (rs2, osd2, h2)"
      by (cases "run_osd es osd1 h1")
    have rs: "rs = (r, h1) # rs2" using Cons.prems(3) EvNext nx run by simp
    note n = Next_osd_inv [OF Cons.prems(1) fit nx]
    from Cons.prems(4) rs consider "r = Inr s" "hr = h1" | "(Inr s, hr) \<in> set rs2" by auto
    then show ?thesis
    proof cases
      case 1
      from n(2) [OF 1(1)] show ?thesis unfolding 1(2) by blast
    next
      case 2
      from Cons.IH [OF n(1) bnd run 2] show ?thesis by (simp add: EvNext; blast?)
    qed
  next
    case EvPreload
    obtain osd1 h1 where pre: "preloadNextSegment_osd osd h = (osd1, h1)"
      by (cases "preloadNextSegment_osd osd h")
    have run: "run_osd es osd1 h1 = (rs, osd', h')"
      using Cons.prems(3) EvPreload pre by simp
    note n = preloadNextSegment_osd_inv [OF Cons.prems(1) fit pre]
    from Cons.IH [OF n bnd run Cons.prems(4)] show ?thesis by (simp add: EvPreload; blast?)
  next
    case EvCheckpoint
    obtain r osd1 h1 where cp: "checkpoint osd h = (r, osd1, h1)"
      by (cases "checkpoint osd h")
    have run: "run_osd es osd1 h1 = (rs, osd', h')"
      using Cons.prems(3) EvCheckpoint cp by simp
    note n = checkpoint_inv [OF Cons.prems(1) cp]
    from Cons.IH [OF n bnd0 run Cons.prems(4)] show ?thesis by (simp add: EvCheckpoint; blast?)
  next
    case (EvSetCurrent c)
    have run: "run_osd es (SetCurrent_osd osd c) h = (rs, osd', h')"
      using Cons.prems(3) EvSetCurrent by simp
    note n = SetCurrent_osd_inv [OF Cons.prems(1), of c]
    from Cons.IH [OF n bnd0 run Cons.prems(4)] obtain v e where
      ve: "s = (if IncrMode cfg = IncrModeFixed then sprintf_0d (Length cfg) v
                else sprintf_d v)" "e \<in> committed hr" "v < e"
      by blast
    have "\<not> (\<forall>c. EvSetCurrent c \<notin> set (ev # es))" unfolding EvSetCurrent by auto
    with ve show ?thesis by blast
  qed
qed

text \<open>A dispenser of another type issues nothing.\<close>

lemma preloadNextSegment_osd_config:
  "osd_config (fst (preloadNextSegment_osd osd h)) = osd_config osd"
  by (simp add: preloadNextSegment_osd_def Let_def split: prod.splits option.splits)

lemma checkpoint_config: "osd_config (fst (snd (checkpoint osd h))) = osd_config osd"
  by (simp add: checkpoint_def Let_def split: prod.splits option.splits)

lemma run_osd_other_type:
  assumes "Type (osd_config osd) \<noteq> TypeNumericIncremental"
    and "run_osd es osd h = (rs, osd', h')"
  shows "(Inr s, hr) \<notin> set rs"
  using assms
proof (induction es arbitrary: osd h rs osd' h')
  case Nil
  then show ?case by simp
next
  case (Cons ev es)
  show ?case
  proof (cases ev)
    case EvNext
    have nx: "Next_osd osd h
              = (Inl (ErrorNew ''segment allocation only supported for incremental type''),
                 osd, h)"
      using Cons.prems(1) by (simp add: Next_osd_def)
    obtain rs2 osd2 h2 where run: "run_osd es osd h = (rs2, osd2, h2)"
      by (cases "run_osd es osd h")
    have "rs = (Inl (ErrorNew ''segment allocation only supported for incremental type''), h)
               # rs2"
      using Cons.prems(2) EvNext nx run by simp
    then show ?thesis using Cons.IH [OF Cons.prems(1) run] by simp
  next
    case EvPreload
    obtain osd1 h1 where pre: "preloadNextSegment_osd osd h = (osd1, h1)"
      by (cases "preloadNextSegment_osd osd h")
    have c: "Type (osd_config osd1) \<noteq> TypeNumericIncremental"
      using preloadNextSegment_osd_config [of osd h] pre Cons.prems(1) by simp
    have "run_osd es osd1 h1 = (rs, osd', h')" using Cons.prems(2) EvPreload pre by simp
    then show ?thesis using Cons.IH [OF c] by simp
  next
    case EvCheckpoint
    obtain r osd1 h1 where cp: "checkpoint osd h = (r, osd1, h1)"
      by (cases "checkpoint osd h")
    have c: "Type (osd_config osd1) \<noteq> TypeNumericIncremental"
      using checkpoint_config [of osd h] cp Cons.prems(1) by simp
    have "run_osd es osd1 h1 = (rs, osd', h')" using Cons.prems(2) EvCheckpoint cp by simp
    then show ?thesis using Cons.IH [OF c] by simp
  next
    case (EvSetCurrent c)
    have c: "Type (osd_config (SetCurrent_osd osd c)) \<noteq> TypeNumericIncremental"
      using Cons.prems(1) by (simp add: SetCurrent_osd_def)
    have "run_osd es (SetCurrent_osd osd c) h = (rs, osd', h')"
      using Cons.prems(2) EvSetCurrent by simp
    then show ?thesis using Cons.IH [OF c] by simp
  qed
qed

text \<open>The dispenser that \<open>NewOptimizedSegmentDispenser\<close> returns.\<close>

lemma allocateSegment_osd_config:
  "osd_config (fst (snd (allocateSegment_osd osd start h))) = osd_config osd"
  by (simp add: allocateSegment_osd_def Let_def split: prod.splits option.splits)

lemma NewOptimizedSegmentDispenser_start:
  assumes new: "NewOptimizedSegmentDispenser cfg segmentSize threshold interval pf h0
                = (Inr osd0, h1)"
  obtains osd osdA where "validateConfig cfg = None"
    and "osd = \<lparr> osd_config = (if Step cfg = 0 then cfg\<lparr> Step := 1 \<rparr> else cfg),
                  osd_currentNumber = 0, osd_segmentEnd = 0,
                  osd_segmentSize = (if segmentSize \<le> 0 then 100 else segmentSize),
                  osd_threshold = (if threshold \<le> 0 \<or> threshold \<ge> 1 then 2 / 10
                                   else threshold),
                  osd_nextSegmentStart = 0, osd_nextSegmentEnd = 0,
                  osd_nextSegmentReady = False, osd_persistFunc = pf,
                  osd_lastPersisted = 0, osd_ticker = False, osd_stopped = False,
                  osd_totalGenerated = 0, osd_totalWasted = 0, osd_preloads = 0 \<rparr>"
    and "allocateSegment_osd osd (Starting cfg) h0 = (None, osdA, h1)"
    and "osd0 = (if interval > 0 then osdA\<lparr> osd_ticker := True \<rparr> else osdA)"
proof -
  define osd where
    "osd = \<lparr> osd_config = (if Step cfg = 0 then cfg\<lparr> Step := 1 \<rparr> else cfg),
                  osd_currentNumber = 0, osd_segmentEnd = 0,
                  osd_segmentSize = (if segmentSize \<le> 0 then 100 else segmentSize),
                  osd_threshold = (if threshold \<le> 0 \<or> threshold \<ge> 1 then 2 / 10
                                   else threshold),
                  osd_nextSegmentStart = 0, osd_nextSegmentEnd = 0,
                  osd_nextSegmentReady = False, osd_persistFunc = pf,
                  osd_lastPersisted = 0, osd_ticker = False, osd_stopped = False,
                  osd_totalGenerated = 0, osd_totalWasted = 0, osd_preloads = 0 \<rparr>"
  have v: "validateConfig cfg = None"
    using new by (cases "validateConfig cfg") (simp_all add: NewOptimizedSegmentDispenser_def)
  obtain e osdA hA where a: "allocateSegment_osd osd (Starting cfg) h0 = (e, osdA, hA)"
    by (cases "allocateSegment_osd osd (Starting cfg) h0")
  have unf: "NewOptimizedSegmentDispenser cfg segmentSize threshold interval pf h0 =
      (case allocateSegment_osd osd (Starting cfg) h0 of
         (Some err, osd', h') \<Rightarrow> (Inl err, h')
       | (None, osd', h') \<Rightarrow>
           (Inr (if interval > 0 then osd'\<lparr> osd_ticker := True \<rparr> else osd'), h'))"
    unfolding NewOptimizedSegmentDispenser_def v osd_def Let_def by simp
  have "e = None \<and> hA = h1
        \<and> osd0 = (if interval > 0 then osdA\<lparr> osd_ticker := True \<rparr> else osdA)"
    using new unfolding unf a by (cases e) (simp_all split del: if_split)
  then show ?thesis using that [OF v osd_def] a by blast
qed

lemma NewOptimizedSegmentDispenser_inv:
  assumes new: "NewOptimizedSegmentDispenser cfg segmentSize threshold interval
                  (Some recordPersist) h0 = (Inr osd0, h1)"
    and ty: "Type cfg = TypeNumericIncremental"
    and S: "S = (if segmentSize \<le> 0 then 100 else segmentSize)"
    and st: "step = (if Step cfg = 0 then 1 else Step cfg)"
    and fit: "Starting cfg + S * step < 2 ^ 63"
  shows "seg_inv (cfg\<lparr> Step := step \<rparr>) S True (Starting cfg + S * step) osd0 h1"
proof -
  from NewOptimizedSegmentDispenser_start [OF new] obtain osd osdA where
    v: "validateConfig cfg = None"
    and osd: "osd = \<lparr> osd_config = (if Step cfg = 0 then cfg\<lparr> Step := 1 \<rparr> else cfg),
                  osd_currentNumber = 0, osd_segmentEnd = 0,
                  osd_segmentSize = (if segmentSize \<le> 0 then 100 else segmentSize),
                  osd_threshold = (if threshold \<le> 0 \<or> threshold \<ge> 1 then 2 / 10
                                   else threshold),
                  osd_nextSegmentStart = 0, osd_nextSegmentEnd = 0,
                  osd_nextSegmentReady = False, osd_persistFunc = Some recordPersist,
                  osd_lastPersisted = 0, osd_ticker = False, osd_stopped = False,
                  osd_totalGenerated = 0, osd_totalWasted = 0, osd_preloads = 0 \<rparr>"
    and a: "allocateSegment_osd osd (Starting cfg) h0 = (None, osdA, h1)"
    and o0: "osd0 = (if interval > 0 then osdA\<lparr> osd_ticker := True \<rparr> else osdA)"
    by blast
  let ?cfg = "cfg\<lparr> Step := step \<rparr>"
  have vc: "(IncrMode cfg = IncrModeFixed \<longrightarrow> 1 \<le> Length cfg \<and> Length cfg \<le> 18)
            \<and> 0 \<le> Starting cfg \<and> 0 \<le> Step cfg"
    using v ty
    by (simp add: validateConfig_def TypeNumericRandom_def TypeNumericIncremental_def
          TypeUUID_def split: if_splits) arith
  have cf: "osd_config osd = ?cfg" unfolding osd st by simp
  have sz: "osd_segmentSize osd = S" unfolding osd S by simp
  have pf: "osd_persistFunc osd = Some recordPersist" unfolding osd by simp
  have Sp: "0 < S" unfolding S by simp
  have stp: "0 < Step ?cfg" using vc unfolding st by simp
  have len: "IncrMode ?cfg = IncrModeFixed \<longrightarrow> 1 \<le> Length ?cfg \<and> Length ?cfg \<le> 18"
    using vc by simp
  have s0: "0 \<le> Starting cfg" using vc by simp
  have fit': "Starting cfg + S * Step ?cfg < 2 ^ 63" using fit by simp
  from allocateSegment_osd_result(3) [OF pf cf sz Sp stp len s0 fit' a refl]
  obtain E where oA: "osdA = osd\<lparr> osd_currentNumber := Starting cfg, osd_segmentEnd := E,
                                   osd_lastPersisted := E \<rparr>"
    and E: "E \<in> committed h1" "Starting cfg < E" "E \<le> Starting cfg + S * Step ?cfg"
      "E = Starting cfg + S * Step ?cfg
       \<or> (IncrMode ?cfg = IncrModeFixed \<and> E = 10 ^ nat (Length ?cfg))"
    by blast
  have sel: "osd_config osd0 = ?cfg" "osd_segmentSize osd0 = S"
    "osd_persistFunc osd0 = Some recordPersist" "osd_segmentEnd osd0 = E"
    "osd_currentNumber osd0 = Starting cfg" "osd_nextSegmentReady osd0 = False"
    unfolding o0 oA using cf sz pf by (simp_all add: osd)
  have dv: "Step ?cfg dvd (E - Starting cfg)
            \<or> (IncrMode ?cfg = IncrModeFixed \<and> E = 10 ^ nat (Length ?cfg))"
    using E(4) by auto
  show ?thesis
  proof (rule seg_invI)
    show "Type ?cfg = TypeNumericIncremental" using ty by simp
    show "osd_segmentEnd osd0 \<le> Starting cfg + S * step" unfolding sel using E(3) by simp
    show "0 \<le> osd_segmentEnd osd0" unfolding sel using E(2) s0 by simp
    show "osd_segmentEnd osd0 \<in> committed h1" unfolding sel using E(1) .
    show "osd_nextSegmentEnd osd0 \<in> committed h1 \<and> 0 \<le> osd_nextSegmentStart osd0
          \<and> osd_nextSegmentStart osd0 + S * Step ?cfg = osd_nextSegmentEnd osd0
          \<and> osd_nextSegmentEnd osd0 \<le> Starting cfg + S * step"
      if "osd_nextSegmentReady osd0" using that sel(6) by simp
    show "(0 \<le> osd_currentNumber osd0 \<and> osd_currentNumber osd0 \<le> osd_segmentEnd osd0
           \<and> Step ?cfg dvd (osd_segmentEnd osd0 - osd_currentNumber osd0))
          \<or> (IncrMode ?cfg = IncrModeFixed \<and> osd_segmentEnd osd0 = 10 ^ nat (Length ?cfg))"
      unfolding sel using dv s0 E(2) by auto
  qed (use sel Sp stp len in \<open>simp_all\<close>)
qed

lemma NewOptimizedSegmentDispenser_type:
  assumes "NewOptimizedSegmentDispenser cfg segmentSize threshold interval pf h0
           = (Inr osd0, h1)"
  shows "Type (osd_config osd0) = Type cfg"
proof -
  from NewOptimizedSegmentDispenser_start [OF assms] obtain osd osdA where
    osd: "osd = \<lparr> osd_config = (if Step cfg = 0 then cfg\<lparr> Step := 1 \<rparr> else cfg),
                  osd_currentNumber = 0, osd_segmentEnd = 0,
                  osd_segmentSize = (if segmentSize \<le> 0 then 100 else segmentSize),
                  osd_threshold = (if threshold \<le> 0 \<or> threshold \<ge> 1 then 2 / 10
                                   else threshold),
                  osd_nextSegmentStart = 0, osd_nextSegmentEnd = 0,
                  osd_nextSegmentReady = False, osd_persistFunc = pf,
                  osd_lastPersisted = 0, osd_ticker = False, osd_stopped = False,
                  osd_totalGenerated = 0, osd_totalWasted = 0, osd_preloads = 0 \<rparr>"
    and a: "allocateSegment_osd osd (Starting cfg) h0 = (None, osdA, h1)"
    and o0: "osd0 = (if interval > 0 then osdA\<lparr> osd_ticker := True \<rparr> else osdA)"
    by blast
  have "osd_config osdA = osd_config osd"
    using allocateSegment_osd_config [of osd "Starting cfg" h0] a by simp
  then show ?thesis unfolding o0 by (simp add: osd)
qed

text \<open>A run that begins with the creation of the dispenser.\<close>

lemma osd_run_committed:
  "NewOptimizedSegmentDispenser cfg segmentSize threshold interval (Some recordPersist) h0
     = (Inr osd0, h1)
   \<and> step = (if Step cfg = 0 then 1 else Step cfg)
   \<and> W = (if segmentSize \<le> 0 then 100 else segmentSize) * step
   \<and> Starting cfg + (int (length es) + 1) * W < 2 ^ 63
   \<and> run_osd es osd0 h1 = (rs, osd, h)
   \<and> (Inr s, hr) \<in> set rs
   \<longrightarrow>
   (\<exists>v e. s = (if IncrMode cfg = IncrModeFixed then sprintf_0d (Length cfg) v
                else sprintf_d v)
          \<and> e \<in> committed hr \<and> v < e
          \<and> ((\<forall>c. EvSetCurrent c \<notin> set es) \<longrightarrow>
                v + step \<le> e
                \<or> (IncrMode cfg = IncrModeFixed \<and> e = 10 ^ nat (Length cfg))))"
proof (intro impI)
  assume a: "NewOptimizedSegmentDispenser cfg segmentSize threshold interval
               (Some recordPersist) h0 = (Inr osd0, h1)
   \<and> step = (if Step cfg = 0 then 1 else Step cfg)
   \<and> W = (if segmentSize \<le> 0 then 100 else segmentSize) * step
   \<and> Starting cfg + (int (length es) + 1) * W < 2 ^ 63
   \<and> run_osd es osd0 h1 = (rs, osd, h)
   \<and> (Inr s, hr) \<in> set rs"
  define S where "S = (if segmentSize \<le> 0 then 100 else segmentSize)"
  from a have new: "NewOptimizedSegmentDispenser cfg segmentSize threshold interval
                      (Some recordPersist) h0 = (Inr osd0, h1)"
    and st: "step = (if Step cfg = 0 then 1 else Step cfg)"
    and W: "W = S * step"
    and fit: "Starting cfg + (int (length es) + 1) * W < 2 ^ 63"
    and run: "run_osd es osd0 h1 = (rs, osd, h)"
    and mem: "(Inr s, hr) \<in> set rs"
    unfolding S_def by blast+
  have ty: "Type cfg = TypeNumericIncremental"
  proof (rule ccontr)
    assume "Type cfg \<noteq> TypeNumericIncremental"
    then have "Type (osd_config osd0) \<noteq> TypeNumericIncremental"
      using NewOptimizedSegmentDispenser_type [OF new] by simp
    from run_osd_other_type [OF this run] mem show False by blast
  qed
  from NewOptimizedSegmentDispenser_start [OF new] have v: "validateConfig cfg = None"
    by blast
  have "0 \<le> Step cfg" using v ty
    by (simp add: validateConfig_def TypeNumericRandom_def TypeNumericIncremental_def
          TypeUUID_def split: if_splits)
  then have "0 < step" unfolding st by simp
  moreover have "0 < S" unfolding S_def by simp
  ultimately have Wp: "0 < W" unfolding W by simp
  then have "0 \<le> int (length es) * W" by simp
  then have fit1: "Starting cfg + S * step < 2 ^ 63"
    using fit unfolding W [symmetric] by (simp add: algebra_simps)
  let ?cfg = "cfg\<lparr> Step := step \<rparr>"
  have inv: "seg_inv ?cfg S True (Starting cfg + S * step) osd0 h1"
    using new ty S_def st fit1 by (rule NewOptimizedSegmentDispenser_inv)
  have bnd: "Starting cfg + S * step + int (length es) * (S * Step ?cfg) < 2 ^ 63"
    using fit unfolding W by (simp add: algebra_simps)
  have sel: "IncrMode ?cfg = IncrMode cfg" "Length ?cfg = Length cfg" "Step ?cfg = step"
    by simp_all
  from run_osd_inv [OF inv bnd run mem] obtain v e where
    "s = (if IncrMode cfg = IncrModeFixed then sprintf_0d (Length cfg) v else sprintf_d v)"
    "e \<in> committed hr" "v < e"
    "(\<forall>c. EvSetCurrent c \<notin> set es) \<longrightarrow>
       v + step \<le> e \<or> (IncrMode cfg = IncrModeFixed \<and> e = 10 ^ nat (Length cfg))"
    unfolding sel by blast
  then show
    "\<exists>v e. s = (if IncrMode cfg = IncrModeFixed then sprintf_0d (Length cfg) v
                else sprintf_d v)
          \<and> e \<in> committed hr \<and> v < e
          \<and> ((\<forall>c. EvSetCurrent c \<notin> set es) \<longrightarrow>
                v + step \<le> e
                \<or> (IncrMode cfg = IncrModeFixed \<and> e = 10 ^ nat (Length cfg)))"
    by blast
qed


section \<open>The basic segment dispenser in a run\<close>

lemma seg_inv_sd_mono:
  "seg_inv_sd cfg S al b sd h \<Longrightarrow> b \<le> b' \<Longrightarrow> committed h \<subseteq> committed h' \<Longrightarrow>
     seg_inv_sd cfg S al b' sd h'"
  unfolding seg_inv_sd_def by (intro conjI impI; (elim conjE)?; force)

text \<open>What \<open>allocateSegment\<close> does when its sum does not overflow.\<close>

lemma allocateSegment_sd_result:
  assumes pf: "sd_persistFunc sd = Some recordPersist"
    and cf: "sd_config sd = cfg" and sz: "sd_segmentSize sd = S"
    and S: "0 < S" and st: "0 < Step cfg"
    and len: "Type cfg = TypeIncrFixed \<longrightarrow> 1 \<le> Length cfg \<and> Length cfg \<le> 18"
    and s0: "0 \<le> start" and fit: "start + S * Step cfg < 2 ^ 63"
    and al: "allocateSegment_sd sd start h = (r, sd', h')"
  shows "committed h \<subseteq> committed h'"
    and "r \<noteq> None \<Longrightarrow> sd' = sd"
    and "r = None \<Longrightarrow>
           \<exists>E. sd' = sd\<lparr> sd_currentNumber := start, sd_segmentEnd := E \<rparr>
               \<and> E \<in> committed h' \<and> start < E \<and> E \<le> start + S * Step cfg
               \<and> (E = start + S * Step cfg
                  \<or> (Type cfg = TypeIncrFixed \<and> E = 10 ^ nat (Length cfg)))"
proof -
  have W: "0 < S * Step cfg" using S st by simp
  have e0: "i64 (start + i64 (S * Step cfg)) = start + S * Step cfg"
    using s0 W fit by (rule segment_sum)
  define mv where "mv = i64 (pow10 (Length cfg) - 1)"
  define E where "E = (if Type cfg = TypeIncrFixed \<and> start + S * Step cfg > mv
                       then i64 (mv + 1) else start + S * Step cfg)"
  have unf: "allocateSegment_sd sd start h =
       (if Type cfg = TypeIncrFixed \<and> start \<ge> mv then (Some ErrNumberExhausted, sd, h)
        else case call_persist (Some recordPersist) E h of
               (Some err, h') \<Rightarrow> (Some err, sd, h')
             | (None, h') \<Rightarrow>
                 (None, sd\<lparr> sd_currentNumber := start, sd_segmentEnd := E \<rparr>, h'))"
    unfolding allocateSegment_sd_def Let_def pf cf sz e0 mv_def E_def ..
  show "committed h \<subseteq> committed h'"
  proof (cases "Type cfg = TypeIncrFixed \<and> start \<ge> mv")
    case True
    then show ?thesis using al unfolding unf by simp
  next
    case False
    obtain r1 h1 where c: "call_persist (Some recordPersist) E h = (r1, h1)"
      by (cases "call_persist (Some recordPersist) E h")
    then have "h' = h1" using al False unfolding unf by (cases r1) auto
    then show ?thesis using call_recordPersist(1) [OF c] by simp
  qed
  show "sd' = sd" if "r \<noteq> None"
  proof (cases "Type cfg = TypeIncrFixed \<and> start \<ge> mv")
    case True
    then show ?thesis using al unfolding unf by simp
  next
    case False
    obtain r1 h1 where c: "call_persist (Some recordPersist) E h = (r1, h1)"
      by (cases "call_persist (Some recordPersist) E h")
    then show ?thesis using al False that unfolding unf by (cases r1) auto
  qed
  show "\<exists>E. sd' = sd\<lparr> sd_currentNumber := start, sd_segmentEnd := E \<rparr>
               \<and> E \<in> committed h' \<and> start < E \<and> E \<le> start + S * Step cfg
               \<and> (E = start + S * Step cfg
                  \<or> (Type cfg = TypeIncrFixed \<and> E = 10 ^ nat (Length cfg)))"
    if rn: "r = None"
  proof -
    have nf: "\<not> (Type cfg = TypeIncrFixed \<and> start \<ge> mv)"
      using al rn unfolding unf by (auto split: if_splits)
    obtain r1 h1 where c: "call_persist (Some recordPersist) E h = (r1, h1)"
      by (cases "call_persist (Some recordPersist) E h")
    have r1: "r1 = None" "h' = h1"
      and o: "sd' = sd\<lparr> sd_currentNumber := start, sd_segmentEnd := E \<rparr>"
      using al nf rn c unfolding unf by (cases r1; auto)+
    have inE: "E \<in> committed h'" using call_recordPersist(2) [OF c] r1 by simp
    have EE: "start < E \<and> E \<le> start + S * Step cfg
               \<and> (E = start + S * Step cfg
                  \<or> (Type cfg = TypeIncrFixed \<and> E = 10 ^ nat (Length cfg)))"
    proof (cases "Type cfg = TypeIncrFixed \<and> start + S * Step cfg > mv")
      case True
      then have L: "1 \<le> Length cfg" "Length cfg \<le> 18" using len by auto
      have m: "mv = 10 ^ nat (Length cfg) - 1" unfolding mv_def using L by (rule maxValue_eq(1))
      have "E = i64 (10 ^ nat (Length cfg) - 1 + 1)" using True by (simp add: E_def m)
      then have E10: "E = 10 ^ nat (Length cfg)" using maxValue_eq(2) [OF L] by simp
      have "start < mv" using nf True by auto
      then show ?thesis using True E10 m by auto
    next
      case False
      then have "E = start + S * Step cfg" unfolding E_def by (simp only: if_False)
      then show ?thesis using W by simp
    qed
    show ?thesis using o inE EE by blast
  qed
qed

text \<open>The two phases of \<open>Next\<close> of the basic segment dispenser.\<close>

lemma Next_sd_shape:
  assumes ty: "Type (sd_config sd) \<noteq> TypeRandomFixed"
    and sw: "sw = (if sd_currentNumber sd \<ge> sd_segmentEnd sd then
                     (if sd_nextSegmentReady sd then
                        (None,
                         sd\<lparr> sd_currentNumber := sd_nextSegmentStart sd,
                             sd_segmentEnd := sd_nextSegmentEnd sd,
                             sd_nextSegmentReady := False \<rparr>, h)
                      else allocateSegment_sd sd (sd_segmentEnd sd) h)
                   else (None, sd, h))"
    and nx: "Next_sd sd h = (r, sd', h')"
  shows "(\<exists>err. sw = (Some err, sd', h') \<and> r = Inl err)
         \<or> (\<exists>sd1 p. sw = (None, sd1, h')
               \<and> r = (if Type (sd_config sd1) = TypeIncrFixed
                        then Inr (sprintf_0d (Length (sd_config sd1)) (sd_currentNumber sd1))
                        else if Type (sd_config sd1) = TypeIncrZero
                          then Inr (sprintf_d (sd_currentNumber sd1))
                        else Inl ErrInvalidType)
               \<and> sd' = sd1\<lparr> sd_currentNumber :=
                                 i64 (sd_currentNumber sd1 + Step (sd_config sd1)),
                               sd_preloads := p \<rparr>)"
proof -
  obtain e1 sd1 h1 where s: "sw = (e1, sd1, h1)" by (cases sw)
  have unf: "Next_sd sd h =
      (case sw of
         (Some err, sd1, h1) \<Rightarrow> (Inl err, sd1, h1)
       | (None, sd1, h1) \<Rightarrow>
           (let num = sd_currentNumber sd1;
                sd2 = sd1\<lparr> sd_currentNumber :=
                              i64 (sd_currentNumber sd1 + Step (sd_config sd1)) \<rparr>;
                sd3 = (if remaining_low
                            (i64 (sd_segmentEnd sd2 - sd_currentNumber sd2))
                            (i64 (sd_segmentSize sd2 * Step (sd_config sd2)))
                            (sd_threshold sd2)
                          \<and> \<not> sd_nextSegmentReady sd2
                       then sd2\<lparr> sd_preloads := sd_preloads sd2 + 1 \<rparr> else sd2)
            in (if Type (sd_config sd3) = TypeIncrFixed
                  then Inr (sprintf_0d (Length (sd_config sd3)) num)
                else if Type (sd_config sd3) = TypeIncrZero then Inr (sprintf_d num)
                else Inl ErrInvalidType,
                sd3, h1)))"
    unfolding Next_sd_def sw Let_def using ty by (simp only: simp_thms if_False)
  show ?thesis
  proof (cases e1)
    case (Some err)
    then show ?thesis using nx unfolding unf s by simp
  next
    case None
    define sd2 where "sd2 = sd1\<lparr> sd_currentNumber :=
                              i64 (sd_currentNumber sd1 + Step (sd_config sd1)) \<rparr>"
    define c where "c \<longleftrightarrow> remaining_low
                            (i64 (sd_segmentEnd sd2 - sd_currentNumber sd2))
                            (i64 (sd_segmentSize sd2 * Step (sd_config sd2)))
                            (sd_threshold sd2)
                          \<and> \<not> sd_nextSegmentReady sd2"
    define sd3 where "sd3 = (if c then sd2\<lparr> sd_preloads := sd_preloads sd2 + 1 \<rparr>
                             else sd2)"
    have r3: "Next_sd sd h =
                (if Type (sd_config sd3) = TypeIncrFixed
                   then Inr (sprintf_0d (Length (sd_config sd3)) (sd_currentNumber sd1))
                 else if Type (sd_config sd3) = TypeIncrZero
                   then Inr (sprintf_d (sd_currentNumber sd1))
                 else Inl ErrInvalidType, sd3, h1)"
      unfolding unf s None sd3_def c_def sd2_def Let_def by simp
    have p: "sd3 = sd2\<lparr> sd_preloads := (if c then sd_preloads sd2 + 1
                                           else sd_preloads sd2) \<rparr>"
      unfolding sd3_def by simp
    have c3: "sd_config sd3 = sd_config sd1" unfolding p sd2_def by simp
    have "h' = h1" "sd' = sd3"
      "r = (if Type (sd_config sd1) = TypeIncrFixed
            then Inr (sprintf_0d (Length (sd_config sd1)) (sd_currentNumber sd1))
            else if Type (sd_config sd1) = TypeIncrZero
              then Inr (sprintf_d (sd_currentNumber sd1))
            else Inl ErrInvalidType)"
      using nx unfolding r3 c3 by simp_all
    then show ?thesis unfolding p sd2_def using s None by blast
  qed
qed

lemma seg_inv_sdD:
  assumes "seg_inv_sd cfg S al b sd h"
  shows "sd_config sd = cfg" and "sd_segmentSize sd = S"
    and "sd_persistFunc sd = Some recordPersist"
    and "Type cfg = TypeIncrFixed \<or> Type cfg = TypeIncrZero" and "0 < S" and "0 < Step cfg"
    and "Type cfg = TypeIncrFixed \<longrightarrow> 1 \<le> Length cfg \<and> Length cfg \<le> 18"
    and "0 \<le> sd_segmentEnd sd" and "sd_segmentEnd sd \<le> b"
    and "sd_segmentEnd sd \<in> committed h"
    and "sd_nextSegmentReady sd \<Longrightarrow>
           sd_nextSegmentEnd sd \<in> committed h \<and> 0 \<le> sd_nextSegmentStart sd
           \<and> sd_nextSegmentStart sd + S * Step cfg = sd_nextSegmentEnd sd
           \<and> sd_nextSegmentEnd sd \<le> b"
    and "al \<Longrightarrow>
           (0 \<le> sd_currentNumber sd \<and> sd_currentNumber sd \<le> sd_segmentEnd sd
            \<and> Step cfg dvd (sd_segmentEnd sd - sd_currentNumber sd))
           \<or> (Type cfg = TypeIncrFixed \<and> sd_segmentEnd sd = 10 ^ nat (Length cfg))"
  using assms unfolding seg_inv_sd_def by blast+

lemma seg_inv_sdI:
  assumes "sd_config sd = cfg" and "sd_segmentSize sd = S"
    and "sd_persistFunc sd = Some recordPersist"
    and "Type cfg = TypeIncrFixed \<or> Type cfg = TypeIncrZero" and "0 < S" and "0 < Step cfg"
    and "Type cfg = TypeIncrFixed \<longrightarrow> 1 \<le> Length cfg \<and> Length cfg \<le> 18"
    and "0 \<le> sd_segmentEnd sd" and "sd_segmentEnd sd \<le> b"
    and "sd_segmentEnd sd \<in> committed h"
    and "sd_nextSegmentReady sd \<Longrightarrow>
           sd_nextSegmentEnd sd \<in> committed h \<and> 0 \<le> sd_nextSegmentStart sd
           \<and> sd_nextSegmentStart sd + S * Step cfg = sd_nextSegmentEnd sd
           \<and> sd_nextSegmentEnd sd \<le> b"
    and "al \<Longrightarrow>
           (0 \<le> sd_currentNumber sd \<and> sd_currentNumber sd \<le> sd_segmentEnd sd
            \<and> Step cfg dvd (sd_segmentEnd sd - sd_currentNumber sd))
           \<or> (Type cfg = TypeIncrFixed \<and> sd_segmentEnd sd = 10 ^ nat (Length cfg))"
  shows "seg_inv_sd cfg S al b sd h"
  using assms unfolding seg_inv_sd_def by blast

text \<open>The change of segment at the beginning of \<open>Next\<close>.\<close>

lemma switch_sd_inv:
  assumes inv: "seg_inv_sd cfg S al b sd h" and fit: "b + S * Step cfg < 2 ^ 63"
    and sw: "(if sd_currentNumber sd \<ge> sd_segmentEnd sd then
                (if sd_nextSegmentReady sd then
                   (None,
                    sd\<lparr> sd_currentNumber := sd_nextSegmentStart sd,
                         sd_segmentEnd := sd_nextSegmentEnd sd,
                         sd_nextSegmentReady := False \<rparr>, h)
                 else allocateSegment_sd sd (sd_segmentEnd sd) h)
              else (None, sd, h)) = (e1, sd1, h1)"
  shows "seg_inv_sd cfg S al (b + S * Step cfg) sd1 h1"
    and "e1 = None \<Longrightarrow> sd_currentNumber sd1 < sd_segmentEnd sd1"
proof -
  note d = seg_inv_sdD [OF inv]
  have W: "0 < S * Step cfg" using d(5,6) by simp
  have bb: "b \<le> b + S * Step cfg" using W by simp
  consider (inside) "sd_currentNumber sd < sd_segmentEnd sd"
    | (ready) "sd_currentNumber sd \<ge> sd_segmentEnd sd" "sd_nextSegmentReady sd"
    | (alloc) "sd_currentNumber sd \<ge> sd_segmentEnd sd" "\<not> sd_nextSegmentReady sd"
    by linarith
  then have "seg_inv_sd cfg S al (b + S * Step cfg) sd1 h1
             \<and> (e1 = None \<longrightarrow> sd_currentNumber sd1 < sd_segmentEnd sd1)"
  proof cases
    case inside
    then have "e1 = None" "sd1 = sd" "h1 = h" using sw by simp_all
    then show ?thesis using inside seg_inv_sd_mono [OF inv bb subset_refl] by simp
  next
    case ready
    note n = d(11) [OF ready(2)]
    have eq: "e1 = None" "h1 = h"
      "sd1 = sd\<lparr> sd_currentNumber := sd_nextSegmentStart sd,
                     sd_segmentEnd := sd_nextSegmentEnd sd,
                     sd_nextSegmentReady := False \<rparr>"
      using sw ready by simp_all
    have lt: "sd_nextSegmentStart sd < sd_nextSegmentEnd sd" using n W by linarith
    have "sd_nextSegmentEnd sd - sd_nextSegmentStart sd = S * Step cfg"
      using n by linarith
    then have dv: "Step cfg dvd (sd_nextSegmentEnd sd - sd_nextSegmentStart sd)"
      by simp
    have "seg_inv_sd cfg S al (b + S * Step cfg) sd1 h1"
      unfolding eq
      by (rule seg_inv_sdI) (use d n lt dv bb in \<open>simp_all\<close>)
    then show ?thesis using lt eq by simp
  next
    case alloc
    have a: "allocateSegment_sd sd (sd_segmentEnd sd) h = (e1, sd1, h1)"
      using sw alloc by simp
    have fit': "sd_segmentEnd sd + S * Step cfg < 2 ^ 63" using d(9) fit by simp
    note r = allocateSegment_sd_result [OF d(3) d(1) d(2) d(5) d(6) d(7) d(8) fit' a]
    show ?thesis
    proof (cases e1)
      case (Some err)
      then have "sd1 = sd" using r(2) by simp
      then show ?thesis using seg_inv_sd_mono [OF inv bb r(1)] Some by simp
    next
      case None
      from r(3) [OF None] obtain E where
        o: "sd1 = sd\<lparr> sd_currentNumber := sd_segmentEnd sd, sd_segmentEnd := E \<rparr>"
        and E: "E \<in> committed h1" "sd_segmentEnd sd < E"
          "E \<le> sd_segmentEnd sd + S * Step cfg"
          "E = sd_segmentEnd sd + S * Step cfg
           \<or> (Type cfg = TypeIncrFixed \<and> E = 10 ^ nat (Length cfg))"
        by blast
      have nr: "sd_nextSegmentReady sd1 = False" unfolding o using alloc by simp
      have al': "(0 \<le> sd_segmentEnd sd \<and> sd_segmentEnd sd \<le> E
                  \<and> Step cfg dvd (E - sd_segmentEnd sd))
                 \<or> (Type cfg = TypeIncrFixed \<and> E = 10 ^ nat (Length cfg))"
        using E d(8) by auto
      have "seg_inv_sd cfg S al (b + S * Step cfg) sd1 h1"
      proof (rule seg_inv_sdI)
        show "sd_segmentEnd sd1 \<le> b + S * Step cfg" unfolding o using E(3) d(9) by simp
        show "0 \<le> sd_segmentEnd sd1" unfolding o using E(2) d(8) by simp
        show "sd_segmentEnd sd1 \<in> committed h1" unfolding o using E(1) by simp
        show "sd_nextSegmentEnd sd1 \<in> committed h1 \<and> 0 \<le> sd_nextSegmentStart sd1
              \<and> sd_nextSegmentStart sd1 + S * Step cfg = sd_nextSegmentEnd sd1
              \<and> sd_nextSegmentEnd sd1 \<le> b + S * Step cfg"
          if "sd_nextSegmentReady sd1" using that nr by simp
        show "(0 \<le> sd_currentNumber sd1 \<and> sd_currentNumber sd1 \<le> sd_segmentEnd sd1
               \<and> Step cfg dvd (sd_segmentEnd sd1 - sd_currentNumber sd1))
              \<or> (Type cfg = TypeIncrFixed \<and> sd_segmentEnd sd1 = 10 ^ nat (Length cfg))"
          if al unfolding o using al' by simp
      qed (use d in \<open>simp_all add: o\<close>)
      then show ?thesis using E(2) o by simp
    qed
  qed
  then show "seg_inv_sd cfg S al (b + S * Step cfg) sd1 h1"
    and "e1 = None \<Longrightarrow> sd_currentNumber sd1 < sd_segmentEnd sd1" by blast+
qed

text \<open>The issue of the number at the position, inside the segment.\<close>

lemma issue_sd_inv:
  assumes inv: "seg_inv_sd cfg S al b sd1 h" and b: "b < 2 ^ 63"
    and lt: "sd_currentNumber sd1 < sd_segmentEnd sd1"
  shows "seg_inv_sd cfg S al b
           (sd1\<lparr> sd_currentNumber := i64 (sd_currentNumber sd1 + Step cfg), sd_preloads := p \<rparr>) h"
    and "al \<Longrightarrow> sd_currentNumber sd1 + Step cfg \<le> sd_segmentEnd sd1
                \<or> (Type cfg = TypeIncrFixed \<and> sd_segmentEnd sd1 = 10 ^ nat (Length cfg))"
proof -
  note d = seg_inv_sdD [OF inv]
  have step: "sd_currentNumber sd1 + Step cfg \<le> sd_segmentEnd sd1"
    if "Step cfg dvd (sd_segmentEnd sd1 - sd_currentNumber sd1)"
  proof -
    have "Step cfg \<le> sd_segmentEnd sd1 - sd_currentNumber sd1"
      using that lt by (intro zdvd_imp_le) auto
    then show ?thesis by simp
  qed
  show c2: "sd_currentNumber sd1 + Step cfg \<le> sd_segmentEnd sd1
        \<or> (Type cfg = TypeIncrFixed \<and> sd_segmentEnd sd1 = 10 ^ nat (Length cfg))"
    if al using d(12) [OF that] step by blast
  show "seg_inv_sd cfg S al b
           (sd1\<lparr> sd_currentNumber := i64 (sd_currentNumber sd1 + Step cfg), sd_preloads := p \<rparr>) h"
  proof (rule seg_inv_sdI)
    show "(0 \<le> sd_currentNumber
                 (sd1\<lparr> sd_currentNumber := i64 (sd_currentNumber sd1 + Step cfg), sd_preloads := p \<rparr>)
           \<and> sd_currentNumber
                 (sd1\<lparr> sd_currentNumber := i64 (sd_currentNumber sd1 + Step cfg), sd_preloads := p \<rparr>)
               \<le> sd_segmentEnd
                    (sd1\<lparr> sd_currentNumber := i64 (sd_currentNumber sd1 + Step cfg), sd_preloads := p \<rparr>)
           \<and> Step cfg dvd
               (sd_segmentEnd
                  (sd1\<lparr> sd_currentNumber := i64 (sd_currentNumber sd1 + Step cfg), sd_preloads := p \<rparr>)
                - sd_currentNumber
                    (sd1\<lparr> sd_currentNumber := i64 (sd_currentNumber sd1 + Step cfg), sd_preloads := p \<rparr>)))
          \<or> (Type cfg = TypeIncrFixed
              \<and> sd_segmentEnd
                    (sd1\<lparr> sd_currentNumber := i64 (sd_currentNumber sd1 + Step cfg), sd_preloads := p \<rparr>)
                  = 10 ^ nat (Length cfg))"
      if a: al
    proof (cases "Type cfg = TypeIncrFixed \<and> sd_segmentEnd sd1 = 10 ^ nat (Length cfg)")
      case True
      then show ?thesis by simp
    next
      case False
      then have g: "0 \<le> sd_currentNumber sd1"
        "Step cfg dvd (sd_segmentEnd sd1 - sd_currentNumber sd1)"
        using d(12) [OF a] by blast+
      have le: "sd_currentNumber sd1 + Step cfg \<le> sd_segmentEnd sd1" using step g(2) .
      have "fits64 (sd_currentNumber sd1 + Step cfg)"
        using g(1) d(6) le d(9) b by (intro fits64_nonneg) auto
      then have i: "i64 (sd_currentNumber sd1 + Step cfg) = sd_currentNumber sd1 + Step cfg"
        by (rule i64_id)
      have "Step cfg dvd (sd_segmentEnd sd1 - sd_currentNumber sd1 - Step cfg)"
        using g(2) by simp
      then have "Step cfg dvd (sd_segmentEnd sd1 - (sd_currentNumber sd1 + Step cfg))"
        by (simp add: algebra_simps)
      then show ?thesis using g(1) d(6) le by (simp add: i)
    qed
  qed (use d in \<open>simp_all\<close>)
qed

text \<open>One call of \<open>Next\<close>: the invariant is kept, and a number is issued from below a committed end.\<close>

lemma Next_sd_inv:
  assumes inv: "seg_inv_sd cfg S al b sd h" and fit: "b + S * Step cfg < 2 ^ 63"
    and nx: "Next_sd sd h = (r, sd', h')"
  shows "seg_inv_sd cfg S al (b + S * Step cfg) sd' h'"
    and "r = Inr s \<Longrightarrow>
           \<exists>v e. s = (if Type cfg = TypeIncrFixed then sprintf_0d (Length cfg) v
                       else sprintf_d v)
                 \<and> e \<in> committed h' \<and> v < e
                 \<and> (al \<longrightarrow> v + Step cfg \<le> e
                             \<or> (Type cfg = TypeIncrFixed \<and> e = 10 ^ nat (Length cfg)))"
proof -
  note d = seg_inv_sdD [OF inv]
  have ty: "Type (sd_config sd) \<noteq> TypeRandomFixed"
    using d(1,4) by (auto simp: TypeRandomFixed_def TypeIncrFixed_def TypeIncrZero_def)
  define sw where
    "sw = (if sd_currentNumber sd \<ge> sd_segmentEnd sd then
             (if sd_nextSegmentReady sd then
                (None,
                 sd\<lparr> sd_currentNumber := sd_nextSegmentStart sd,
                     sd_segmentEnd := sd_nextSegmentEnd sd,
                     sd_nextSegmentReady := False \<rparr>, h)
              else allocateSegment_sd sd (sd_segmentEnd sd) h)
           else (None, sd, h))"
  from Next_sd_shape [OF ty sw_def nx]
  consider (fail) err where "sw = (Some err, sd', h')" "r = Inl err"
    | (ok) sd1 p where "sw = (None, sd1, h')"
        "r = (if Type (sd_config sd1) = TypeIncrFixed
              then Inr (sprintf_0d (Length (sd_config sd1)) (sd_currentNumber sd1))
              else if Type (sd_config sd1) = TypeIncrZero
                then Inr (sprintf_d (sd_currentNumber sd1))
              else Inl ErrInvalidType)"
        "sd' = sd1\<lparr> sd_currentNumber :=
                         i64 (sd_currentNumber sd1 + Step (sd_config sd1)),
                       sd_preloads := p \<rparr>"
    by blast
  then have "seg_inv_sd cfg S al (b + S * Step cfg) sd' h'
     \<and> (r = Inr s \<longrightarrow>
          (\<exists>v e. s = (if Type cfg = TypeIncrFixed then sprintf_0d (Length cfg) v
                       else sprintf_d v)
                 \<and> e \<in> committed h' \<and> v < e
                 \<and> (al \<longrightarrow> v + Step cfg \<le> e
                             \<or> (Type cfg = TypeIncrFixed \<and> e = 10 ^ nat (Length cfg)))))"
  proof cases
    case fail
    from switch_sd_inv(1) [OF inv fit fail(1) [unfolded sw_def]]
    show ?thesis using fail(2) by simp
  next
    case ok
    note s1 = switch_sd_inv [OF inv fit ok(1) [unfolded sw_def]]
    have lt: "sd_currentNumber sd1 < sd_segmentEnd sd1" using s1(2) by simp
    note d1 = seg_inv_sdD [OF s1(1)]
    from issue_sd_inv [OF s1(1) fit lt]
    have i1: "seg_inv_sd cfg S al (b + S * Step cfg) sd' h'"
      and i2: "al \<longrightarrow> sd_currentNumber sd1 + Step cfg \<le> sd_segmentEnd sd1
                \<or> (Type cfg = TypeIncrFixed
                    \<and> sd_segmentEnd sd1 = 10 ^ nat (Length cfg))"
      unfolding ok(3) d1(1) by blast+
    have "s = (if Type cfg = TypeIncrFixed
               then sprintf_0d (Length cfg) (sd_currentNumber sd1)
               else sprintf_d (sd_currentNumber sd1))" if "r = Inr s"
      using that ok(2) d1(4) unfolding d1(1) by (auto split: if_splits)
    then show ?thesis using i1 i2 lt d1(10) by blast
  qed
  then show "seg_inv_sd cfg S al (b + S * Step cfg) sd' h'"
    and "r = Inr s \<Longrightarrow>
           \<exists>v e. s = (if Type cfg = TypeIncrFixed then sprintf_0d (Length cfg) v
                       else sprintf_d v)
                 \<and> e \<in> committed h' \<and> v < e
                 \<and> (al \<longrightarrow> v + Step cfg \<le> e
                             \<or> (Type cfg = TypeIncrFixed \<and> e = 10 ^ nat (Length cfg)))"
    by blast+
qed

text \<open>The prefetch goroutine and \<open>SetCurrent\<close>.\<close>

lemma preloadNextSegment_sd_inv:
  assumes inv: "seg_inv_sd cfg S al b sd h" and fit: "b + S * Step cfg < 2 ^ 63"
    and pre: "preloadNextSegment_sd sd h = (sd', h')"
  shows "seg_inv_sd cfg S al (b + S * Step cfg) sd' h'"
proof -
  note d = seg_inv_sdD [OF inv]
  have W: "0 < S * Step cfg" using d(5,6) by simp
  have bb: "b \<le> b + S * Step cfg" using W by simp
  define sd0 where "sd0 = sd\<lparr> sd_preloads := sd_preloads sd - 1 \<rparr>"
  have inv0: "seg_inv_sd cfg S al b sd0 h"
    unfolding sd0_def by (rule seg_inv_sdI) (use d in \<open>simp_all\<close>)
  note d0 = seg_inv_sdD [OF inv0]
  define end1 where "end1 = sd_segmentEnd sd0 + S * Step cfg"
  have e1: "i64 (sd_segmentEnd sd0 + i64 (sd_segmentSize sd0 * Step (sd_config sd0)))
            = end1"
    unfolding end1_def d0(1) d0(2) using d0(8) W
  proof (rule segment_sum)
    show "sd_segmentEnd sd0 + S * Step cfg < 2 ^ 63" using d0(9) fit by simp
  qed
  have unf: "preloadNextSegment_sd sd h =
      (if sd_preloads sd = 0 then (sd, h)
       else if sd_nextSegmentReady sd0 then (sd0, h)
       else case call_persist (Some recordPersist) end1 h of
              (Some err, h') \<Rightarrow> (sd0, h')
            | (None, h') \<Rightarrow>
                (sd0\<lparr> sd_nextSegmentStart := sd_segmentEnd sd0,
                       sd_nextSegmentEnd := end1,
                       sd_nextSegmentReady := True \<rparr>, h'))"
    unfolding preloadNextSegment_sd_def Let_def sd0_def [symmetric] e1 d0(3) ..
  consider (none) "sd_preloads sd = 0"
    | (ready) "sd_preloads sd \<noteq> 0" "sd_nextSegmentReady sd0"
    | (run) "sd_preloads sd \<noteq> 0" "\<not> sd_nextSegmentReady sd0"
    by blast
  then show ?thesis
  proof cases
    case none
    then have "sd' = sd" "h' = h" using pre unfolding unf by simp_all
    then show ?thesis using seg_inv_sd_mono [OF inv bb subset_refl] by simp
  next
    case ready
    then have "sd' = sd0" "h' = h" using pre unfolding unf by simp_all
    then show ?thesis using seg_inv_sd_mono [OF inv0 bb subset_refl] by simp
  next
    case run
    obtain r1 h1 where c: "call_persist (Some recordPersist) end1 h = (r1, h1)"
      by (cases "call_persist (Some recordPersist) end1 h")
    note cp = call_recordPersist [OF c]
    show ?thesis
    proof (cases r1)
      case (Some err)
      then have "sd' = sd0" "h' = h1" using pre run c unfolding unf by simp_all
      then show ?thesis using seg_inv_sd_mono [OF inv0 bb cp(1)] by simp
    next
      case None
      then have o: "sd' = sd0\<lparr> sd_nextSegmentStart := sd_segmentEnd sd0,
                                  sd_nextSegmentEnd := end1,
                                  sd_nextSegmentReady := True \<rparr>"
        and hh: "h' = h1" using pre run c unfolding unf by simp_all
      have in1: "end1 \<in> committed h1" using cp(2) None by simp
      have le1: "end1 \<le> b + S * Step cfg" unfolding end1_def using d0(9) by simp
      have m: "seg_inv_sd cfg S al (b + S * Step cfg) sd0 h1"
        using seg_inv_sd_mono [OF inv0 bb cp(1)] .
      note dm = seg_inv_sdD [OF m]
      show ?thesis unfolding o hh
      proof (rule seg_inv_sdI)
        show "sd_nextSegmentEnd
                (sd0\<lparr> sd_nextSegmentStart := sd_segmentEnd sd0,
                       sd_nextSegmentEnd := end1, sd_nextSegmentReady := True \<rparr>)
                \<in> committed h1
              \<and> 0 \<le> sd_nextSegmentStart
                      (sd0\<lparr> sd_nextSegmentStart := sd_segmentEnd sd0,
                             sd_nextSegmentEnd := end1, sd_nextSegmentReady := True \<rparr>)
              \<and> sd_nextSegmentStart
                    (sd0\<lparr> sd_nextSegmentStart := sd_segmentEnd sd0,
                           sd_nextSegmentEnd := end1, sd_nextSegmentReady := True \<rparr>)
                  + S * Step cfg
                = sd_nextSegmentEnd
                    (sd0\<lparr> sd_nextSegmentStart := sd_segmentEnd sd0,
                           sd_nextSegmentEnd := end1, sd_nextSegmentReady := True \<rparr>)
              \<and> sd_nextSegmentEnd
                    (sd0\<lparr> sd_nextSegmentStart := sd_segmentEnd sd0,
                           sd_nextSegmentEnd := end1, sd_nextSegmentReady := True \<rparr>)
                  \<le> b + S * Step cfg"
          using in1 le1 d0(8) by (simp add: end1_def)
        show "(0 \<le> sd_currentNumber
                     (sd0\<lparr> sd_nextSegmentStart := sd_segmentEnd sd0,
                            sd_nextSegmentEnd := end1, sd_nextSegmentReady := True \<rparr>)
               \<and> sd_currentNumber
                     (sd0\<lparr> sd_nextSegmentStart := sd_segmentEnd sd0,
                            sd_nextSegmentEnd := end1, sd_nextSegmentReady := True \<rparr>)
                   \<le> sd_segmentEnd
                        (sd0\<lparr> sd_nextSegmentStart := sd_segmentEnd sd0,
                               sd_nextSegmentEnd := end1, sd_nextSegmentReady := True \<rparr>)
               \<and> Step cfg dvd
                   (sd_segmentEnd
                      (sd0\<lparr> sd_nextSegmentStart := sd_segmentEnd sd0,
                             sd_nextSegmentEnd := end1, sd_nextSegmentReady := True \<rparr>)
                    - sd_currentNumber
                        (sd0\<lparr> sd_nextSegmentStart := sd_segmentEnd sd0,
                               sd_nextSegmentEnd := end1, sd_nextSegmentReady := True \<rparr>)))
              \<or> (Type cfg = TypeIncrFixed
                  \<and> sd_segmentEnd
                        (sd0\<lparr> sd_nextSegmentStart := sd_segmentEnd sd0,
                               sd_nextSegmentEnd := end1, sd_nextSegmentReady := True \<rparr>)
                      = 10 ^ nat (Length cfg))"
          if al using dm(12) [OF that] by simp
      qed (use dm in \<open>simp_all\<close>)
    qed
  qed
qed

lemma SetCurrent_sd_inv:
  assumes inv: "seg_inv_sd cfg S al b sd h"
  shows "seg_inv_sd cfg S False b (SetCurrent_sd sd c) h"
  unfolding SetCurrent_sd_def
  by (rule seg_inv_sdI) (use seg_inv_sdD [OF inv] in \<open>simp_all\<close>)

text \<open>A whole run, by induction on its events.\<close>

lemma run_sd_inv:
  assumes "seg_inv_sd cfg S al b sd h"
    and "b + int (length es) * (S * Step cfg) < 2 ^ 63"
    and "run_sd es sd h = (rs, sd', h')"
    and "(Inr s, hr) \<in> set rs"
  shows "\<exists>v e. s = (if Type cfg = TypeIncrFixed then sprintf_0d (Length cfg) v
                     else sprintf_d v)
               \<and> e \<in> committed hr \<and> v < e
               \<and> (al \<and> (\<forall>c. EvSetCurrent c \<notin> set es) \<longrightarrow>
                    v + Step cfg \<le> e
                    \<or> (Type cfg = TypeIncrFixed \<and> e = 10 ^ nat (Length cfg)))"
  using assms
proof (induction es arbitrary: al b sd h rs sd' h')
  case Nil
  then show ?case by simp
next
  case (Cons ev es)
  note d = seg_inv_sdD [OF Cons.prems(1)]
  have W: "0 < S * Step cfg" using d(5,6) by simp
  have len: "0 \<le> int (length es) * (S * Step cfg)" using W by simp
  have bnd: "b + S * Step cfg + int (length es) * (S * Step cfg) < 2 ^ 63"
    using Cons.prems(2) by (simp add: algebra_simps)
  have fit: "b + S * Step cfg < 2 ^ 63" using bnd len by linarith
  have bnd0: "b + int (length es) * (S * Step cfg) < 2 ^ 63" using bnd W by linarith
  show ?case
  proof (cases ev)
    case EvNext
    obtain r sd1 h1 where nx: "Next_sd sd h = (r, sd1, h1)"
      by (cases "Next_sd sd h")
    obtain rs2 sd2 h2 where run: "run_sd es sd1 h1 = (rs2, sd2, h2)"
      by (cases "run_sd es sd1 h1")
    have rs: "rs = (r, h1) # rs2" using Cons.prems(3) EvNext nx run by simp
    note n = Next_sd_inv [OF Cons.prems(1) fit nx]
    from Cons.prems(4) rs consider "r = Inr s" "hr = h1" | "(Inr s, hr) \<in> set rs2" by auto
    then show ?thesis
    proof cases
      case 1
      from n(2) [OF 1(1)] show ?thesis unfolding 1(2) by blast
    next
      case 2
      from Cons.IH [OF n(1) bnd run 2] show ?thesis by (simp add: EvNext; blast?)
    qed
  next
    case EvPreload
    obtain sd1 h1 where pre: "preloadNextSegment_sd sd h = (sd1, h1)"
      by (cases "preloadNextSegment_sd sd h")
    have run: "run_sd es sd1 h1 = (rs, sd', h')"
      using Cons.prems(3) EvPreload pre by simp
    note n = preloadNextSegment_sd_inv [OF Cons.prems(1) fit pre]
    from Cons.IH [OF n bnd run Cons.prems(4)] show ?thesis by (simp add: EvPreload; blast?)
  next
    case EvCheckpoint
    have run: "run_sd es sd h = (rs, sd', h')" using Cons.prems(3) EvCheckpoint by simp
    from Cons.IH [OF Cons.prems(1) bnd0 run Cons.prems(4)] show ?thesis
      by (simp add: EvCheckpoint; blast?)
  next
    case (EvSetCurrent c)
    have run: "run_sd es (SetCurrent_sd sd c) h = (rs, sd', h')"
      using Cons.prems(3) EvSetCurrent by simp
    note n = SetCurrent_sd_inv [OF Cons.prems(1), of c]
    from Cons.IH [OF n bnd0 run Cons.prems(4)] obtain v e where
      ve: "s = (if Type cfg = TypeIncrFixed then sprintf_0d (Length cfg) v
                else sprintf_d v)" "e \<in> committed hr" "v < e"
      by blast
    have "\<not> (\<forall>c. EvSetCurrent c \<notin> set (ev # es))" unfolding EvSetCurrent by auto
    with ve show ?thesis by blast
  qed
qed

text \<open>The dispenser that \<open>NewSegmentDispenser\<close> returns.\<close>

lemma NewSegmentDispenser_start:
  assumes new: "NewSegmentDispenser cfg segmentSize threshold pf h0 = (Inr sd0, h1)"
  obtains sd where "validateConfig_sd cfg = None"
    and "sd = \<lparr> sd_config = (if Step cfg = 0 then cfg\<lparr> Step := 1 \<rparr> else cfg),
                 sd_currentNumber = 0, sd_segmentEnd = 0,
                 sd_segmentSize = (if segmentSize \<le> 0 then 100 else segmentSize),
                 sd_threshold = (if threshold \<le> 0 \<or> threshold \<ge> 1 then 2 / 10
                                 else threshold),
                 sd_nextSegmentStart = 0, sd_nextSegmentEnd = 0,
                 sd_nextSegmentReady = False, sd_persistFunc = pf, sd_preloads = 0 \<rparr>"
    and "allocateSegment_sd sd (Starting cfg) h0 = (None, sd0, h1)"
proof -
  define sd where
    "sd = \<lparr> sd_config = (if Step cfg = 0 then cfg\<lparr> Step := 1 \<rparr> else cfg),
                 sd_currentNumber = 0, sd_segmentEnd = 0,
                 sd_segmentSize = (if segmentSize \<le> 0 then 100 else segmentSize),
                 sd_threshold = (if threshold \<le> 0 \<or> threshold \<ge> 1 then 2 / 10
                                 else threshold),
                 sd_nextSegmentStart = 0, sd_nextSegmentEnd = 0,
                 sd_nextSegmentReady = False, sd_persistFunc = pf, sd_preloads = 0 \<rparr>"
  have v: "validateConfig_sd cfg = None"
    using new by (cases "validateConfig_sd cfg") (simp_all add: NewSegmentDispenser_def)
  have st: "(if Type cfg = TypeIncrZero \<and> Starting cfg = 0 then 0 else Starting cfg)
            = Starting cfg" by simp
  obtain e sdA hA where a: "allocateSegment_sd sd (Starting cfg) h0 = (e, sdA, hA)"
    by (cases "allocateSegment_sd sd (Starting cfg) h0")
  have unf: "NewSegmentDispenser cfg segmentSize threshold pf h0 =
      (case allocateSegment_sd sd (Starting cfg) h0 of
         (Some err, sd', h') \<Rightarrow> (Inl err, h')
       | (None, sd', h') \<Rightarrow> (Inr sd', h'))"
    unfolding NewSegmentDispenser_def v sd_def Let_def st by simp
  have "e = None \<and> hA = h1 \<and> sd0 = sdA"
    using new unfolding unf a by (cases e) simp_all
  then show ?thesis using that [OF v sd_def] a by blast
qed

lemma NewSegmentDispenser_inv:
  assumes new: "NewSegmentDispenser cfg segmentSize threshold (Some recordPersist) h0
                = (Inr sd0, h1)"
    and ty: "Type cfg \<noteq> TypeRandomFixed"
    and S: "S = (if segmentSize \<le> 0 then 100 else segmentSize)"
    and st: "step = (if Step cfg = 0 then 1 else Step cfg)"
    and fit: "Starting cfg + S * step < 2 ^ 63"
  shows "seg_inv_sd (cfg\<lparr> Step := step \<rparr>) S True (Starting cfg + S * step) sd0 h1"
proof -
  from NewSegmentDispenser_start [OF new] obtain sd where
    v: "validateConfig_sd cfg = None"
    and sd: "sd = \<lparr> sd_config = (if Step cfg = 0 then cfg\<lparr> Step := 1 \<rparr> else cfg),
                 sd_currentNumber = 0, sd_segmentEnd = 0,
                 sd_segmentSize = (if segmentSize \<le> 0 then 100 else segmentSize),
                 sd_threshold = (if threshold \<le> 0 \<or> threshold \<ge> 1 then 2 / 10
                                 else threshold),
                 sd_nextSegmentStart = 0, sd_nextSegmentEnd = 0,
                 sd_nextSegmentReady = False, sd_persistFunc = Some recordPersist,
                 sd_preloads = 0 \<rparr>"
    and a: "allocateSegment_sd sd (Starting cfg) h0 = (None, sd0, h1)"
    by blast
  let ?cfg = "cfg\<lparr> Step := step \<rparr>"
  have tys: "Type cfg = TypeIncrFixed \<or> Type cfg = TypeIncrZero"
    using v ty
    by (simp add: validateConfig_sd_def TypeRandomFixed_def TypeIncrFixed_def TypeIncrZero_def
          split: if_splits) arith
  have vc: "(Type cfg = TypeIncrFixed \<longrightarrow> 1 \<le> Length cfg \<and> Length cfg \<le> 18)
            \<and> 0 \<le> Starting cfg \<and> 0 \<le> Step cfg"
    using v tys
    by (auto simp add: validateConfig_sd_def TypeRandomFixed_def TypeIncrFixed_def
          TypeIncrZero_def split: if_splits)
  have cf: "sd_config sd = ?cfg" unfolding sd st by simp
  have sz: "sd_segmentSize sd = S" unfolding sd S by simp
  have pf: "sd_persistFunc sd = Some recordPersist" unfolding sd by simp
  have Sp: "0 < S" unfolding S by simp
  have stp: "0 < Step ?cfg" using vc unfolding st by simp
  have len: "Type ?cfg = TypeIncrFixed \<longrightarrow> 1 \<le> Length ?cfg \<and> Length ?cfg \<le> 18"
    using vc by simp
  have s0: "0 \<le> Starting cfg" using vc by simp
  have fit': "Starting cfg + S * Step ?cfg < 2 ^ 63" using fit by simp
  from allocateSegment_sd_result(3) [OF pf cf sz Sp stp len s0 fit' a refl]
  obtain E where oA: "sd0 = sd\<lparr> sd_currentNumber := Starting cfg, sd_segmentEnd := E \<rparr>"
    and E: "E \<in> committed h1" "Starting cfg < E" "E \<le> Starting cfg + S * Step ?cfg"
      "E = Starting cfg + S * Step ?cfg
       \<or> (Type ?cfg = TypeIncrFixed \<and> E = 10 ^ nat (Length ?cfg))"
    by blast
  have sel: "sd_config sd0 = ?cfg" "sd_segmentSize sd0 = S"
    "sd_persistFunc sd0 = Some recordPersist" "sd_segmentEnd sd0 = E"
    "sd_currentNumber sd0 = Starting cfg" "sd_nextSegmentReady sd0 = False"
    unfolding oA using cf sz pf by (simp_all add: sd)
  have dv: "Step ?cfg dvd (E - Starting cfg)
            \<or> (Type ?cfg = TypeIncrFixed \<and> E = 10 ^ nat (Length ?cfg))"
    using E(4) by auto
  show ?thesis
  proof (rule seg_inv_sdI)
    show "Type ?cfg = TypeIncrFixed \<or> Type ?cfg = TypeIncrZero" using tys by simp
    show "sd_segmentEnd sd0 \<le> Starting cfg + S * step" unfolding sel using E(3) by simp
    show "0 \<le> sd_segmentEnd sd0" unfolding sel using E(2) s0 by simp
    show "sd_segmentEnd sd0 \<in> committed h1" unfolding sel using E(1) .
    show "sd_nextSegmentEnd sd0 \<in> committed h1 \<and> 0 \<le> sd_nextSegmentStart sd0
          \<and> sd_nextSegmentStart sd0 + S * Step ?cfg = sd_nextSegmentEnd sd0
          \<and> sd_nextSegmentEnd sd0 \<le> Starting cfg + S * step"
      if "sd_nextSegmentReady sd0" using that sel(6) by simp
    show "(0 \<le> sd_currentNumber sd0 \<and> sd_currentNumber sd0 \<le> sd_segmentEnd sd0
           \<and> Step ?cfg dvd (sd_segmentEnd sd0 - sd_currentNumber sd0))
          \<or> (Type ?cfg = TypeIncrFixed \<and> sd_segmentEnd sd0 = 10 ^ nat (Length ?cfg))"
      unfolding sel using dv s0 E(2) by auto
  qed (use sel Sp stp len in \<open>simp_all\<close>)
qed

text \<open>A run that begins with the creation of the dispenser.\<close>

lemma sd_run_committed:
  "NewSegmentDispenser cfg segmentSize threshold (Some recordPersist) h0 = (Inr sd0, h1)
   \<and> Type cfg \<noteq> TypeRandomFixed
   \<and> step = (if Step cfg = 0 then 1 else Step cfg)
   \<and> W = (if segmentSize \<le> 0 then 100 else segmentSize) * step
   \<and> Starting cfg + (int (length es) + 1) * W < 2 ^ 63
   \<and> run_sd es sd0 h1 = (rs, sd, h)
   \<and> (Inr s, hr) \<in> set rs
   \<longrightarrow>
   (\<exists>v e. s = (if Type cfg = TypeIncrFixed then sprintf_0d (Length cfg) v
                else sprintf_d v)
          \<and> e \<in> committed hr \<and> v < e
          \<and> ((\<forall>c. EvSetCurrent c \<notin> set es) \<longrightarrow>
                v + step \<le> e
                \<or> (Type cfg = TypeIncrFixed \<and> e = 10 ^ nat (Length cfg))))"
proof (intro impI)
  assume a: "NewSegmentDispenser cfg segmentSize threshold (Some recordPersist) h0
               = (Inr sd0, h1)
   \<and> Type cfg \<noteq> TypeRandomFixed
   \<and> step = (if Step cfg = 0 then 1 else Step cfg)
   \<and> W = (if segmentSize \<le> 0 then 100 else segmentSize) * step
   \<and> Starting cfg + (int (length es) + 1) * W < 2 ^ 63
   \<and> run_sd es sd0 h1 = (rs, sd, h)
   \<and> (Inr s, hr) \<in> set rs"
  define S where "S = (if segmentSize \<le> 0 then 100 else segmentSize)"
  from a have new: "NewSegmentDispenser cfg segmentSize threshold (Some recordPersist) h0
                    = (Inr sd0, h1)"
    and ty: "Type cfg \<noteq> TypeRandomFixed"
    and st: "step = (if Step cfg = 0 then 1 else Step cfg)"
    and W: "W = S * step"
    and fit: "Starting cfg + (int (length es) + 1) * W < 2 ^ 63"
    and run: "run_sd es sd0 h1 = (rs, sd, h)"
    and mem: "(Inr s, hr) \<in> set rs"
    unfolding S_def by blast+
  from NewSegmentDispenser_start [OF new] have v: "validateConfig_sd cfg = None"
    by blast
  have "0 \<le> Step cfg" using v
    by (simp add: validateConfig_sd_def split: if_splits)
  then have "0 < step" unfolding st by simp
  moreover have "0 < S" unfolding S_def by simp
  ultimately have Wp: "0 < W" unfolding W by simp
  then have "0 \<le> int (length es) * W" by simp
  then have fit1: "Starting cfg + S * step < 2 ^ 63"
    using fit unfolding W [symmetric] by (simp add: algebra_simps)
  let ?cfg = "cfg\<lparr> Step := step \<rparr>"
  have inv: "seg_inv_sd ?cfg S True (Starting cfg + S * step) sd0 h1"
    using new ty S_def st fit1 by (rule NewSegmentDispenser_inv)
  have bnd: "Starting cfg + S * step + int (length es) * (S * Step ?cfg) < 2 ^ 63"
    using fit unfolding W by (simp add: algebra_simps)
  have sel: "Type ?cfg = Type cfg" "Length ?cfg = Length cfg" "Step ?cfg = step"
    by simp_all
  from run_sd_inv [OF inv bnd run mem] obtain v e where
    "s = (if Type cfg = TypeIncrFixed then sprintf_0d (Length cfg) v else sprintf_d v)"
    "e \<in> committed hr" "v < e"
    "(\<forall>c. EvSetCurrent c \<notin> set es) \<longrightarrow>
       v + step \<le> e \<or> (Type cfg = TypeIncrFixed \<and> e = 10 ^ nat (Length cfg))"
    unfolding sel by blast
  then show
    "\<exists>v e. s = (if Type cfg = TypeIncrFixed then sprintf_0d (Length cfg) v
                else sprintf_d v)
          \<and> e \<in> committed hr \<and> v < e
          \<and> ((\<forall>c. EvSetCurrent c \<notin> set es) \<longrightarrow>
                v + step \<le> e
                \<or> (Type cfg = TypeIncrFixed \<and> e = 10 ^ nat (Length cfg)))"
    by blast
qed

section \<open>C2: a number is issued only from below a committed position\<close>

text \<open>
  C2, as amended. A segment dispenser is created with a recording persistence callback:
  the optimized one (the strategies pre-checkpoint and pre_close), or the basic one
  (pre-base) of an incrementing kind. Then any sequence of Next calls, runs of the
  prefetch goroutine, checkpoints and SetCurrent calls follows, n steps in all with
  starting + (n + 1) * segment_size * step < 2^63, so that no segment end overflows
  int64. Whenever a Next call returns successfully, it returns the
  rendering of a number v for which the callback has already returned success with some
  argument e > v, in the synchronous allocation as in the prefetch. If no SetCurrent
  occurred in the run, then moreover e >= v + step, unless the dispenser is fixed-width
  and e is the end 10^length of a segment cut at the cap.
\<close>

theorem C2_issued_below_committed_end:
  "(NewOptimizedSegmentDispenser cfg segmentSize threshold interval (Some recordPersist) h0
      = (Inr osd0, h1)
    \<and> step = (if Step cfg = 0 then 1 else Step cfg)
    \<and> W = (if segmentSize \<le> 0 then 100 else segmentSize) * step
    \<and> Starting cfg + (int (length es) + 1) * W < 2 ^ 63
    \<and> run_osd es osd0 h1 = (rs, osd, h)
    \<and> (Inr s, hr) \<in> set rs
    \<longrightarrow>
    (\<exists>v e. s = (if IncrMode cfg = IncrModeFixed then sprintf_0d (Length cfg) v
                 else sprintf_d v)
           \<and> e \<in> committed hr \<and> v < e
           \<and> ((\<forall>c. EvSetCurrent c \<notin> set es) \<longrightarrow>
                 v + step \<le> e
                 \<or> (IncrMode cfg = IncrModeFixed \<and> e = 10 ^ nat (Length cfg)))))
   \<and>
   (NewSegmentDispenser cfg2 segmentSize2 threshold2 (Some recordPersist) k0 = (Inr sd0, k1)
    \<and> Type cfg2 \<noteq> TypeRandomFixed
    \<and> step2 = (if Step cfg2 = 0 then 1 else Step cfg2)
    \<and> W2 = (if segmentSize2 \<le> 0 then 100 else segmentSize2) * step2
    \<and> Starting cfg2 + (int (length es2) + 1) * W2 < 2 ^ 63
    \<and> run_sd es2 sd0 k1 = (rs2, sd, k)
    \<and> (Inr s2, kr) \<in> set rs2
    \<longrightarrow>
    (\<exists>v e. s2 = (if Type cfg2 = TypeIncrFixed then sprintf_0d (Length cfg2) v
                  else sprintf_d v)
           \<and> e \<in> committed kr \<and> v < e
           \<and> ((\<forall>c. EvSetCurrent c \<notin> set es2) \<longrightarrow>
                 v + step2 \<le> e
                 \<or> (Type cfg2 = TypeIncrFixed \<and> e = 10 ^ nat (Length cfg2)))))"
  using osd_run_committed [of cfg segmentSize threshold interval h0 osd0 h1 step W es rs osd h
          s hr]
    sd_run_committed [of cfg2 segmentSize2 threshold2 k0 sd0 k1 step2 W2 es2 rs2 sd k s2 kr]
  by (rule conjI)

lemma run_s7_results:
  "\<not> isl (fst new_s7)" "length (fst run_s7) = 4" "fst (fst run_s7 ! 3) = Inr ''26''"
  "map fst (fst run_s7) = [Inr ''5'', Inr ''12'', Inr ''19'', Inr ''26'']"
  "\<not> isl (fst new_z7)" "length (fst run_z7) = 4" "fst (fst run_z7 ! 3) = Inr ''26''"
  "map fst (fst run_z7) = [Inr ''5'', Inr ''12'', Inr ''19'', Inr ''26'']"
  by code_simp+

theorem C2_issued_below_committed_end_witness:
  "\<not> isl (fst new_s7)
   \<and> Starting cfg_s7 + (int (length events_s7) + 1) * (3 * 7) < 2 ^ 63
   \<and> map fst (fst run_s7) = [Inr ''5'', Inr ''12'', Inr ''19'', Inr ''26'']
   \<and> (\<forall>c. EvSetCurrent c \<notin> set events_s7)
   \<and> (\<exists>v e. ''26'' = sprintf_d v \<and> e \<in> committed (snd (fst run_s7 ! 3)) \<and> v < e
             \<and> v + 7 \<le> e)
   \<and> \<not> isl (fst new_z7) \<and> Type cfg_z7 \<noteq> TypeRandomFixed
   \<and> Starting cfg_z7 + (int (length events_s7) + 1) * (3 * 7) < 2 ^ 63
   \<and> map fst (fst run_z7) = [Inr ''5'', Inr ''12'', Inr ''19'', Inr ''26'']
   \<and> (\<exists>v e. ''26'' = sprintf_d v \<and> e \<in> committed (snd (fst run_z7 ! 3)) \<and> v < e
             \<and> v + 7 \<le> e)"
proof -
  have c: "Step cfg_s7 = 7" "Starting cfg_s7 = 5" "IncrMode cfg_s7 \<noteq> IncrModeFixed"
    by (simp_all add: cfg_s7_def Config0_def IncrModeFixed_def)
  have n: "NewOptimizedSegmentDispenser cfg_s7 3 (1 / 2) 2000 (Some recordPersist) rec_ok
           = (Inr (projr (fst new_s7)), snd new_s7)"
    using run_s7_results(1) by (cases "fst new_s7") (simp_all add: new_s7_def prod_eq_iff)
  have fit: "Starting cfg_s7 + (int (length events_s7) + 1) * (3 * 7) < 2 ^ 63"
    by (simp add: c events_s7_def)
  have ns: "\<forall>c. EvSetCurrent c \<notin> set events_s7" by (simp add: events_s7_def)
  have r: "run_osd events_s7 (projr (fst new_s7)) (snd new_s7)
           = (fst run_s7, fst (snd run_s7), snd (snd run_s7))"
    by (simp add: run_s7_def)
  have "fst run_s7 ! 3 \<in> set (fst run_s7)" using run_s7_results(2) by simp
  then have m: "(Inr ''26'', snd (fst run_s7 ! 3)) \<in> set (fst run_s7)"
    using run_s7_results(3) by (metis prod.collapse)
  have c2: "Step cfg_z7 = 7" "Starting cfg_z7 = 5" "Type cfg_z7 \<noteq> TypeIncrFixed"
    "Type cfg_z7 \<noteq> TypeRandomFixed"
    by (simp_all add: cfg_z7_def Config0_def TypeIncrFixed_def TypeRandomFixed_def)
  have n2: "NewSegmentDispenser cfg_z7 3 (1 / 2) (Some recordPersist) rec_ok
            = (Inr (projr (fst new_z7)), snd new_z7)"
    using run_s7_results(5) by (cases "fst new_z7") (simp_all add: new_z7_def prod_eq_iff)
  have fit2: "Starting cfg_z7 + (int (length events_s7) + 1) * (3 * 7) < 2 ^ 63"
    by (simp add: c2 events_s7_def)
  have r2: "run_sd events_s7 (projr (fst new_z7)) (snd new_z7)
            = (fst run_z7, fst (snd run_z7), snd (snd run_z7))"
    by (simp add: run_z7_def)
  have "fst run_z7 ! 3 \<in> set (fst run_z7)" using run_s7_results(6) by simp
  then have m2: "(Inr ''26'', snd (fst run_z7 ! 3)) \<in> set (fst run_z7)"
    using run_s7_results(7) by (metis prod.collapse)
  note t = C2_issued_below_committed_end [of cfg_s7 3 "1 / 2" 2000 rec_ok
         "projr (fst new_s7)" "snd new_s7" 7 "3 * 7" events_s7 "fst run_s7"
         "fst (snd run_s7)" "snd (snd run_s7)" "''26''" "snd (fst run_s7 ! 3)"
         cfg_z7 3 "1 / 2" rec_ok "projr (fst new_z7)" "snd new_z7" 7 "3 * 7" events_s7
         "fst run_z7" "fst (snd run_z7)" "snd (snd run_z7)" "''26''" "snd (fst run_z7 ! 3)"]
  from t [THEN conjunct1] n c fit ns r m
  have w1: "\<exists>v e. ''26'' = sprintf_d v \<and> e \<in> committed (snd (fst run_s7 ! 3)) \<and> v < e
             \<and> v + 7 \<le> e"
    by simp
  from t [THEN conjunct2] n2 c2 fit2 ns r2 m2
  have w2: "\<exists>v e. ''26'' = sprintf_d v \<and> e \<in> committed (snd (fst run_z7 ! 3)) \<and> v < e
             \<and> v + 7 \<le> e"
    by simp
  from w1 w2 run_s7_results(1,4,5,8) fit fit2 ns c2(4) show ?thesis by blast
qed

text \<open>
  C2 as stated fails in four ways. At the cap of the fixed-width mode a segment is cut:
  a dispenser of length 2 with step 60 (segment size 5, so that no prefetch is started)
  issues 00 and then 60 while the callback has succeeded with 100 only, and
  60 + 60 > 100; with the segment size 1000 of the factory the prefetch is started by the
  first call, and when its callback fails the second call issues 60 all the same; the
  basic segment dispenser does the same. After SetCurrent(20) a sequence dispenser with
  step 7 and the segment from 5 to 26 issues 20, and 20 + 7 > 26. The basic segment
  dispenser of the random kind issues 1000 for length 4 when 1000 is the only committed
  position. And when the end of a segment overflows int64, a sequence dispenser that
  starts at 2^63 - 3 with segments of two numbers issues 2^63 - 1 after the callback has
  succeeded with 2^63 - 1 and with -2^63 + 1 only.
\<close>

theorem C2_last_value_before_cap:
  "map fst (fst run_s60_small) = [Inr ''00'', Inr ''60'']
   \<and> map (log \<circ> snd) (fst run_s60_small) = [ [(100, None)], [(100, None)] ]
   \<and> map fst (fst run_s60) = [Inr ''00'', Inr ''60'']
   \<and> map (log \<circ> snd) (fst run_s60) = [ [(100, None)], [(100, None), (60100, Some ErrIO)] ]
   \<and> \<not> (60 + 60 \<le> (100::int))
   \<and> map fst (fst run_p60) = [Inr ''00'', Inr ''60'']
   \<and> map (log \<circ> snd) (fst run_p60) = [ [(100, None)], [(100, None)] ]
   \<and> map fst (fst run_s7_set) = [Inr ''20'']
   \<and> map (log \<circ> snd) (fst run_s7_set) = [ [(26, None)] ]
   \<and> \<not> (20 + 7 \<le> (26::int))
   \<and> map fst (fst run_r4) = [Inr ''1000'']
   \<and> map (log \<circ> snd) (fst run_r4) = [ [(1000, None)] ]
   \<and> \<not> (1000 < (1000::int))
   \<and> map fst (fst run_top)
       = map (Inr \<circ> sprintf_d) [9223372036854775805 .. 9223372036854775807]
   \<and> map (log \<circ> snd) (fst run_top)
       = [ [(9223372036854775807, None)], [(9223372036854775807, None)],
          [(9223372036854775807, None), (- 9223372036854775807, None)] ]
   \<and> \<not> (9223372036854775807 < (9223372036854775807::int))"
  by code_simp

end
